theory Spec2Isabelle
  imports Complex_Main
begin

section \<open>Weather telemetry pipeline: a shallow embedding\<close>

text \<open>
  The fetcher and the processor talk to a Redis broker. Broker commands are modelled by
  what they do to the keys they touch; a command is a total function of the broker state
  (and of the server clock where expiry matters). Loss of the connection is outside the
  model. JavaScript and Lua numbers are modelled by the real number they denote; the
  rounding of IEEE doubles is not modelled.
\<close>

subsection \<open>Keys with an expiry\<close>

text \<open>
  A key holds a value and, optionally, the instant (server clock, milliseconds) at which
  it expires. Redis removes an expired key lazily: a command that finds the clock past
  the expiry instant sees no key.
\<close>

type_synonym 'v entry = "'v \<times> int option"

definition lookup :: "int \<Rightarrow> 'v entry option \<Rightarrow> 'v entry option" where
  "lookup T k =
     (case k of
        None \<Rightarrow> None
      | Some (v, None) \<Rightarrow> Some (v, None)
      | Some (v, Some x) \<Rightarrow> if x < T then None else Some (v, Some x))"

text \<open>PTTL: -2 for a missing key, -1 for a key without expiry, else the milliseconds left.\<close>

definition PTTL :: "int \<Rightarrow> 'v entry option \<Rightarrow> int" where
  "PTTL T k =
     (case lookup T k of
        None \<Rightarrow> - 2
      | Some (v, None) \<Rightarrow> - 1
      | Some (v, Some x) \<Rightarrow> x - T)"

text \<open>The remaining time to live in milliseconds, when the key is there and has one.\<close>

definition ttl_ms :: "int \<Rightarrow> 'v entry option \<Rightarrow> int option" where
  "ttl_ms T k =
     (case lookup T k of
        None \<Rightarrow> None
      | Some (v, None) \<Rightarrow> None
      | Some (v, Some x) \<Rightarrow> Some (x - T))"

subsection \<open>rate-limiter.ts: the token bucket\<close>

text \<open>
  The bucket key is a hash. Its fields are written by the script only, as numbers; a
  field is modelled by the number \<open>tonumber\<close> reads from it.
\<close>

type_synonym hash = "string \<rightharpoonup> real"

record limiter_store =
  bucket :: "hash entry option"
  cooldown :: "string entry option"

definition MAX_RPS :: real where "MAX_RPS = 8"
definition CAPACITY :: real where "CAPACITY = 8"
definition COOLDOWN_S :: int where "COOLDOWN_S = 30"

text \<open>HMGET of one field: the field's number, or nothing for a missing key or field.\<close>

definition HMGET :: "int \<Rightarrow> hash entry option \<Rightarrow> string \<Rightarrow> real option" where
  "HMGET T k f = (case lookup T k of None \<Rightarrow> None | Some (h, x) \<Rightarrow> h f)"

text \<open>HMSET creates the hash when the key is missing and keeps the expiry of a live key.\<close>

definition HMSET :: "int \<Rightarrow> hash entry option \<Rightarrow> string \<Rightarrow> real \<Rightarrow> string \<Rightarrow> real \<Rightarrow> hash entry option" where
  "HMSET T k f1 v1 f2 v2 =
     (case lookup T k of
        None \<Rightarrow> Some ((Map.empty(f1 \<mapsto> v1))(f2 \<mapsto> v2), None)
      | Some (h, x) \<Rightarrow> Some ((h(f1 \<mapsto> v1))(f2 \<mapsto> v2), x))"

definition EXPIRE :: "int \<Rightarrow> 'v entry option \<Rightarrow> int \<Rightarrow> 'v entry option" where
  "EXPIRE T k secs =
     (case lookup T k of
        None \<Rightarrow> None
      | Some (v, x) \<Rightarrow> Some (v, Some (T + secs * 1000)))"

text \<open>
  \<open>CONSUME_LUA\<close>: the script, run atomically by the broker at server time \<open>T\<close> with
  \<open>ARGV = [capacity, refill_rate, now]\<close>. It returns the new bucket key and 1 (granted)
  or 0 (denied).
\<close>

definition CONSUME_LUA :: "int \<Rightarrow> real \<Rightarrow> real \<Rightarrow> real \<Rightarrow> hash entry option \<Rightarrow> hash entry option \<times> nat" where
  "CONSUME_LUA T capacity refill_rate now key =
     (let tokens = (case HMGET T key ''tokens'' of Some v \<Rightarrow> v | None \<Rightarrow> capacity);
          last_refill = (case HMGET T key ''last_refill'' of Some v \<Rightarrow> v | None \<Rightarrow> now);
          elapsed = max 0 (now - last_refill);
          new_tokens = min capacity (tokens + elapsed * refill_rate)
      in if new_tokens \<ge> 1 then
           (EXPIRE T (HMSET T key ''tokens'' (new_tokens - 1) ''last_refill'' now) 60, 1)
         else
           (EXPIRE T (HMSET T key ''tokens'' new_tokens ''last_refill'' now) 60, 0))"

text \<open>
  One round of the loop of \<open>RateLimiter.acquire\<close>, at wall-clock time \<open>now_ms\<close>
  (\<open>Date.now()\<close>) and server time \<open>T\<close>: sleep for the rest of an active cooldown, or
  run the script and return when it grants, or sleep 40ms when it denies.
\<close>

datatype acquire_round = Granted | SleepCooldown int | SleepDenied int

definition acquire_round :: "int \<Rightarrow> int \<Rightarrow> limiter_store \<Rightarrow> acquire_round \<times> limiter_store" where
  "acquire_round T now_ms s =
     (let ttlMs = PTTL T (cooldown s) in
      if ttlMs > 0 then (SleepCooldown ttlMs, s)
      else
        let now = real_of_int now_ms / 1000;
            (b, granted) = CONSUME_LUA T CAPACITY MAX_RPS now (bucket s)
        in if granted = 1 then (Granted, s\<lparr>bucket := b\<rparr>)
           else (SleepDenied 40, s\<lparr>bucket := b\<rparr>))"

text \<open>\<open>SET key value EX secs NX\<close>: set the key only when no live key is there.\<close>

definition SET_EX_NX :: "int \<Rightarrow> string entry option \<Rightarrow> string \<Rightarrow> int \<Rightarrow> string entry option" where
  "SET_EX_NX T k v secs =
     (case lookup T k of
        None \<Rightarrow> Some (v, Some (T + secs * 1000))
      | Some e \<Rightarrow> k)"

definition notifyThrottled :: "int \<Rightarrow> limiter_store \<Rightarrow> limiter_store" where
  "notifyThrottled T s = s\<lparr>cooldown := SET_EX_NX T (cooldown s) ''1'' COOLDOWN_S\<rparr>"

text \<open>
  The algorithm in the words of the specification: the stored state is a pair
  (tokens, last refill), absent when the key is; the result is the pair to store, the
  time to live in seconds, and whether the token is granted.
\<close>

definition spec_token_bucket :: "real \<Rightarrow> real \<Rightarrow> real \<Rightarrow> (real \<times> real) option \<Rightarrow> (real \<times> real) \<times> int \<times> bool" where
  "spec_token_bucket C R t st =
     (let (tokens, last_refill) = (case st of None \<Rightarrow> (C, t) | Some p \<Rightarrow> p);
          elapsed = max 0 (t - last_refill);
          tokens' = min C (tokens + elapsed * R)
      in if tokens' \<ge> 1 then ((tokens' - 1, t), 60, True) else ((tokens', t), 60, False))"

text \<open>What a bucket key stores, read as the specification's pair.\<close>

definition stored :: "int \<Rightarrow> hash entry option \<Rightarrow> (real \<times> real) option" where
  "stored T k =
     (case (HMGET T k ''tokens'', HMGET T k ''last_refill'') of
        (Some a, Some b) \<Rightarrow> Some (a, b)
      | _ \<Rightarrow> None)"

subsection \<open>JavaScript numbers and strings\<close>

text \<open>
  A JavaScript number is NaN, an infinity, or a finite value, modelled by the real it
  denotes (no rounding, no negative zero). Strings are lists of characters.
\<close>

datatype number = NaN | PosInfinity | NegInfinity | Num real

definition isFinite :: "number \<Rightarrow> bool" where
  "isFinite v = (case v of Num x \<Rightarrow> True | _ \<Rightarrow> False)"

text \<open>The product of two numbers (\<open>a * b\<close> in JavaScript).\<close>

definition sign_inf :: "bool \<Rightarrow> number" where
  "sign_inf neg = (if neg then NegInfinity else PosInfinity)"

fun js_times :: "number \<Rightarrow> number \<Rightarrow> number" where
  "js_times NaN b = NaN"
| "js_times a NaN = NaN"
| "js_times (Num x) (Num y) = Num (x * y)"
| "js_times (Num x) PosInfinity = (if x = 0 then NaN else sign_inf (x < 0))"
| "js_times (Num x) NegInfinity = (if x = 0 then NaN else sign_inf (x > 0))"
| "js_times PosInfinity (Num y) = (if y = 0 then NaN else sign_inf (y < 0))"
| "js_times NegInfinity (Num y) = (if y = 0 then NaN else sign_inf (y > 0))"
| "js_times PosInfinity PosInfinity = PosInfinity"
| "js_times PosInfinity NegInfinity = NegInfinity"
| "js_times NegInfinity PosInfinity = NegInfinity"
| "js_times NegInfinity NegInfinity = PosInfinity"

definition is_digit :: "char \<Rightarrow> bool" where
  "is_digit c = (48 \<le> (of_char c :: nat) \<and> (of_char c :: nat) \<le> 57)"

definition digit_val :: "char \<Rightarrow> nat" where
  "digit_val c = of_char c - 48"

definition digit_char :: "nat \<Rightarrow> char" where
  "digit_char n = char_of (48 + n)"

definition nat_of_digits :: "string \<Rightarrow> nat" where
  "nat_of_digits ds = foldl (\<lambda>acc c. 10 * acc + digit_val c) 0 ds"

text \<open>A natural number in \<open>k\<close> decimal digits, zero padded (its last \<open>k\<close> digits).\<close>

fun pad :: "nat \<Rightarrow> nat \<Rightarrow> string" where
  "pad 0 n = []"
| "pad (Suc k) n = pad k (n div 10) @ [digit_char (n mod 10)]"

text \<open>
  \<open>String(n)\<close> for an integer: its decimal digits, with a minus sign when negative.
  (JavaScript switches to exponent notation from \<open>10^21\<close> on; that is not modelled.)
\<close>

fun show_nat :: "nat \<Rightarrow> string" where
  "show_nat n = (if n < 10 then [digit_char n] else show_nat (n div 10) @ [digit_char (n mod 10)])"

definition show_int :: "int \<Rightarrow> string" where
  "show_int i = (if i < 0 then CHR ''-'' # show_nat (nat (- i)) else show_nat (nat i))"

text \<open>\<open>s.includes(p)\<close>: \<open>p\<close> occurs in \<open>s\<close> as a contiguous substring.\<close>

fun starts_with :: "string \<Rightarrow> string \<Rightarrow> bool" where
  "starts_with s [] = True"
| "starts_with [] (p # ps) = False"
| "starts_with (c # cs) (p # ps) = (c = p \<and> starts_with cs ps)"

fun str_includes :: "string \<Rightarrow> string \<Rightarrow> bool" where
  "str_includes [] p = (p = [])"
| "str_includes (c # cs) p = (starts_with (c # cs) p \<or> str_includes cs p)"

text \<open>
  \<open>parseFloat\<close>: skip leading white space, then read the longest prefix that is a
  decimal literal (an optional sign, then \<open>Infinity\<close>, or digits with an optional
  fraction and an optional exponent); NaN when there is none. White space is the ASCII
  white space and the no-break space.
\<close>

definition is_ws :: "char \<Rightarrow> bool" where
  "is_ws c = (c \<in> set [char_of (9::nat), char_of (10::nat), char_of (11::nat), char_of (12::nat),
                         char_of (13::nat), CHR '' '', char_of (160::nat)])"

text \<open>The exponent part at the head of a string, when there is a well-formed one.\<close>

definition exponent_part :: "string \<Rightarrow> int" where
  "exponent_part s =
     (case s of
        [] \<Rightarrow> 0
      | c # r \<Rightarrow>
          if c = CHR ''e'' \<or> c = CHR ''E'' then
            (case r of
               [] \<Rightarrow> 0
             | d # r' \<Rightarrow>
                 if d = CHR ''-'' then
                   (if takeWhile is_digit r' = [] then 0 else - int (nat_of_digits (takeWhile is_digit r')))
                 else if d = CHR ''+'' then int (nat_of_digits (takeWhile is_digit r'))
                 else int (nat_of_digits (takeWhile is_digit r)))
          else 0)"

definition pow10 :: "int \<Rightarrow> real" where
  "pow10 e = (if e \<ge> 0 then 10 ^ nat e else 1 / 10 ^ nat (- e))"

definition parseFloat :: "string \<Rightarrow> number" where
  "parseFloat s =
     (let t = dropWhile is_ws s;
          neg = (case t of [] \<Rightarrow> False | c # r \<Rightarrow> c = CHR ''-'');
          u = (case t of [] \<Rightarrow> [] | c # r \<Rightarrow> if c = CHR ''-'' \<or> c = CHR ''+'' then r else t)
      in if starts_with u ''Infinity'' then sign_inf neg
         else
           let ip = takeWhile is_digit u;
               r1 = dropWhile is_digit u;
               fp = (case r1 of [] \<Rightarrow> [] | c # r \<Rightarrow> if c = CHR ''.'' then takeWhile is_digit r else []);
               r2 = (case r1 of [] \<Rightarrow> [] | c # r \<Rightarrow> if c = CHR ''.'' then dropWhile is_digit r else r1)
           in if ip = [] \<and> fp = [] then NaN
              else
                let mant = real (nat_of_digits ip) + real (nat_of_digits fp) / 10 ^ length fp
                in Num ((if neg then - 1 else 1) * mant * pow10 (exponent_part r2)))"

subsection \<open>JavaScript dates\<close>

text \<open>
  A time value is a number of milliseconds since the epoch; the calendar is the one of
  ECMAScript: \<open>Day\<close>, \<open>TimeWithinDay\<close>, \<open>DayFromYear\<close>, \<open>YearFromTime\<close>,
  \<open>MonthFromTime\<close>, \<open>DateFromTime\<close>, \<open>MakeDay\<close>.
\<close>

definition msPerDay :: int where "msPerDay = 86400000"

definition Day :: "int \<Rightarrow> int" where "Day t = t div msPerDay"

definition TimeWithinDay :: "int \<Rightarrow> int" where "TimeWithinDay t = t mod msPerDay"

definition DayFromYear :: "int \<Rightarrow> int" where
  "DayFromYear y = 365 * (y - 1970) + (y - 1969) div 4 - (y - 1901) div 100 + (y - 1601) div 400"

definition InLeapYear :: "int \<Rightarrow> int" where
  "InLeapYear y = DayFromYear (y + 1) - DayFromYear y - 365"

text \<open>The largest year that starts on or before day \<open>d\<close>, searched upwards from a lower bound.\<close>

fun year_search :: "nat \<Rightarrow> int \<Rightarrow> int \<Rightarrow> int" where
  "year_search 0 y d = y"
| "year_search (Suc n) y d = (if DayFromYear (y + 1) \<le> d then year_search n (y + 1) d else y)"

definition YearFromDay :: "int \<Rightarrow> int" where
  "YearFromDay d =
     (let y0 = 1969 + (if d \<ge> 0 then d div 366 else d div 365)
      in year_search (nat (d - DayFromYear y0)) y0 d)"

text \<open>The first day, within its year, of month \<open>m\<close> (0 is January).\<close>

definition month_start :: "int \<Rightarrow> nat \<Rightarrow> int" where
  "month_start leap m =
     (if m = 0 then 0 else if m = 1 then 31
      else [59, 90, 120, 151, 181, 212, 243, 273, 304, 334] ! (m - 2) + leap)"

definition MonthFromDay :: "int \<Rightarrow> int \<Rightarrow> nat" where
  "MonthFromDay leap dwy =
     (if dwy < 31 then 0 else if dwy < 59 + leap then 1 else if dwy < 90 + leap then 2
      else if dwy < 120 + leap then 3 else if dwy < 151 + leap then 4
      else if dwy < 181 + leap then 5 else if dwy < 212 + leap then 6
      else if dwy < 243 + leap then 7 else if dwy < 273 + leap then 8
      else if dwy < 304 + leap then 9 else if dwy < 334 + leap then 10 else 11)"

definition MakeDay :: "int \<Rightarrow> nat \<Rightarrow> int \<Rightarrow> int" where
  "MakeDay year month date = DayFromYear year + month_start (InLeapYear year) month + date - 1"

definition MakeTime :: "int \<Rightarrow> int \<Rightarrow> int \<Rightarrow> int \<Rightarrow> int" where
  "MakeTime h m s ms = h * 3600000 + m * 60000 + s * 1000 + ms"

definition MakeDate :: "int \<Rightarrow> int \<Rightarrow> int" where
  "MakeDate day time = day * msPerDay + time"

text \<open>A time value is valid when it is within 8.64e15 ms of the epoch.\<close>

definition valid_time :: "int \<Rightarrow> bool" where
  "valid_time t = (- 8640000000000000 \<le> t \<and> t \<le> 8640000000000000)"

text \<open>
  \<open>Date.prototype.toISOString\<close>: \<open>YYYY-MM-DDTHH:mm:ss.sssZ\<close>, the year in six digits
  with a sign when it is outside 0..9999; a RangeError for an invalid time value.
\<close>

definition year_string :: "int \<Rightarrow> string" where
  "year_string y =
     (if 0 \<le> y \<and> y \<le> 9999 then pad 4 (nat y)
      else (if y < 0 then CHR ''-'' else CHR ''+'') # pad 6 (nat \<bar>y\<bar>))"

definition iso_string :: "int \<Rightarrow> string" where
  "iso_string t =
     (let d = Day t; tod = TimeWithinDay t;
          y = YearFromDay d; leap = InLeapYear y; dwy = d - DayFromYear y;
          m = MonthFromDay leap dwy; date = dwy - month_start leap m + 1
      in year_string y @ ''-'' @ pad 2 (m + 1) @ ''-'' @ pad 2 (nat date) @ ''T''
         @ pad 2 (nat (tod div 3600000)) @ '':'' @ pad 2 (nat (tod div 60000 mod 60)) @ '':''
         @ pad 2 (nat (tod div 1000 mod 60)) @ ''.'' @ pad 3 (nat (tod mod 1000)) @ ''Z'')"

definition toISOString :: "int \<Rightarrow> string + string" where
  "toISOString t = (if valid_time t then Inr (iso_string t) else Inl ''RangeError: Invalid time value'')"

text \<open>
  \<open>Date.parse\<close> on the date-time string format in its full form, as \<open>toISOString\<close>
  writes it. Illegal element values give NaN. The shorter forms, time zone offsets and
  the implementation-defined formats are not modelled: they read as NaN here.
\<close>

definition parse_fixed :: "nat \<Rightarrow> string \<Rightarrow> (nat \<times> string) option" where
  "parse_fixed k s =
     (if k \<le> length s \<and> list_all is_digit (take k s)
      then Some (nat_of_digits (take k s), drop k s) else None)"

definition expect :: "char \<Rightarrow> string \<Rightarrow> string option" where
  "expect c s = (case s of [] \<Rightarrow> None | x # r \<Rightarrow> if x = c then Some r else None)"

definition parse_year :: "string \<Rightarrow> (int \<times> string) option" where
  "parse_year s =
     (case s of
        [] \<Rightarrow> None
      | c # r \<Rightarrow>
          if c = CHR ''+'' then map_option (\<lambda>(n, r'). (int n, r')) (parse_fixed 6 r)
          else if c = CHR ''-'' then
            (case parse_fixed 6 r of
               None \<Rightarrow> None
             | Some (n, r') \<Rightarrow> if n = 0 then None else Some (- int n, r'))
          else map_option (\<lambda>(n, r'). (int n, r')) (parse_fixed 4 s))"

definition parse_iso :: "string \<Rightarrow> (int \<times> nat \<times> nat \<times> nat \<times> nat \<times> nat \<times> nat) option" where
  "parse_iso s =
     Option.bind (parse_year s) (\<lambda>(y, s1).
     Option.bind (expect CHR ''-'' s1) (\<lambda>s2.
     Option.bind (parse_fixed 2 s2) (\<lambda>(mo, s3).
     Option.bind (expect CHR ''-'' s3) (\<lambda>s4.
     Option.bind (parse_fixed 2 s4) (\<lambda>(dd, s5).
     Option.bind (expect CHR ''T'' s5) (\<lambda>s6.
     Option.bind (parse_fixed 2 s6) (\<lambda>(hh, s7).
     Option.bind (expect CHR '':'' s7) (\<lambda>s8.
     Option.bind (parse_fixed 2 s8) (\<lambda>(mi, s9).
     Option.bind (expect CHR '':'' s9) (\<lambda>s10.
     Option.bind (parse_fixed 2 s10) (\<lambda>(ss, s11).
     Option.bind (expect CHR ''.'' s11) (\<lambda>s12.
     Option.bind (parse_fixed 3 s12) (\<lambda>(ms, s13).
       if s13 = ''Z'' then Some (y, mo, dd, hh, mi, ss, ms) else None)))))))))))))"

definition Date_parse :: "string \<Rightarrow> number" where
  "Date_parse s =
     (case parse_iso s of
        None \<Rightarrow> NaN
      | Some (y, mo, dd, hh, mi, ss, ms) \<Rightarrow>
          if 1 \<le> mo \<and> mo \<le> 12 \<and> 1 \<le> dd \<and> dd \<le> 31 \<and> hh \<le> 24 \<and> mi \<le> 59 \<and> ss \<le> 59
             \<and> (hh = 24 \<longrightarrow> mi = 0 \<and> ss = 0 \<and> ms = 0)
          then
            let t = MakeDate (MakeDay y (mo - 1) (int dd)) (MakeTime (int hh) (int mi) (int ss) (int ms))
            in if valid_time t then Num (real_of_int t) else NaN
          else NaN)"

subsection \<open>Observations\<close>

text \<open>
  \<open>Location\<close>, \<open>WeatherPayload\<close> (the writer's \<open>WeatherPoint\<close> has the same
  fields) and \<open>WeatherRecord\<close>. TypeScript types are structural: a record with more
  fields is accepted where fewer are asked for, as a record extension is here.
\<close>

record Location =
  city_name :: string
  latitude :: number
  longitude :: number

record WeatherPayload = Location +
  temperature :: number
  weather_condition :: string
  recorded_at :: string

record WeatherRecord = WeatherPayload +
  id' :: string

subsection \<open>consumer.ts: the stream consumer\<close>

text \<open>
  \<open>parseMessage\<close>. The loop stores \<open>fields[i + 1]\<close> under \<open>fields[i]\<close> for
  \<open>i = 0, 2, 4, ...\<close>; past the end of the array \<open>fields[i + 1]\<close> is \<open>undefined\<close>,
  so the object maps a key to a string or to \<open>undefined\<close> (here \<open>None\<close>). A later
  assignment to the same key replaces an earlier one. \<open>??\<close> takes its right operand
  when the left one is \<open>undefined\<close>, which a missing property is too.
\<close>

fun fields_map :: "string list \<Rightarrow> (string \<rightharpoonup> string option) \<Rightarrow> (string \<rightharpoonup> string option)" where
  "fields_map [] m = m"
| "fields_map [k] m = m(k \<mapsto> None)"
| "fields_map (k # v # rest) m = fields_map rest (m(k \<mapsto> Some v))"

definition property :: "(string \<rightharpoonup> string option) \<Rightarrow> string \<Rightarrow> string option" where
  "property m k = (case m k of Some (Some v) \<Rightarrow> Some v | _ \<Rightarrow> None)"

definition nullish :: "'a option \<Rightarrow> 'a \<Rightarrow> 'a" where
  "nullish x d = (case x of Some v \<Rightarrow> v | None \<Rightarrow> d)"

text \<open>\<open>now\<close> is the time value of \<open>new Date()\<close>, which is always a valid one.\<close>

definition parseMessage :: "int \<Rightarrow> string \<Rightarrow> string list \<Rightarrow> WeatherRecord" where
  "parseMessage now ident flds =
     (let m = fields_map flds Map.empty
      in \<lparr> city_name = nullish (property m ''city_name'') ''unknown'',
           latitude = parseFloat (nullish (property m ''latitude'') ''0''),
           longitude = parseFloat (nullish (property m ''longitude'') ''0''),
           temperature = parseFloat (nullish (property m ''temperature'') ''0''),
           weather_condition = nullish (property m ''weather_condition'') ''unknown'',
           recorded_at = nullish (property m ''recorded_at'') (iso_string now),
           id' = ident \<rparr>)"

text \<open>
  The consumer group of the stream, as this consumer sees it: its pending entries
  (delivered and not acknowledged, oldest first) and the entries of the stream not yet
  delivered to the group. A read with ID \<open>0\<close> answers with the first \<open>count\<close>
  pending entries (an empty list when there are none); a read with ID \<open>>\<close>
  delivers the next \<open>count\<close> new entries, which become pending, or answers \<open>null\<close>
  when the blocking time passes without one. \<open>XACK\<close> removes an entry from the
  pending list.
\<close>

type_synonym message = "string \<times> string list"

record stream_group =
  pel :: "message list"
  undelivered :: "message list"




definition XACK :: "string \<Rightarrow> stream_group \<Rightarrow> stream_group" where
  "XACK ident g = g\<lparr>pel := filter (\<lambda>m. fst m \<noteq> ident) (pel g)\<rparr>"


text \<open>
  What the consumer does, in order: a read (its ID and the reply), a call of the record
  handler (the record and the error it threw, if any), an acknowledgement, a logged
  failure.
\<close>

datatype cevent =
    EvRead string "message list option"
  | EvHandler WeatherRecord "string option"
  | EvXack string
  | EvLogError string string

text \<open>
  \<open>processMessages\<close>. The handler is a function of the record and of its own state;
  it returns the message of the error it throws, if it throws. \<open>clock\<close> gives the time
  at which an entry is parsed.
\<close>

fun processMessages ::
  "(string \<Rightarrow> int) \<Rightarrow> (WeatherRecord \<Rightarrow> 'h \<Rightarrow> string option \<times> 'h) \<Rightarrow> message list
     \<Rightarrow> stream_group \<times> 'h \<Rightarrow> cevent list \<times> stream_group \<times> 'h" where
  "processMessages clock onRecord [] (g, h) = ([], g, h)"
| "processMessages clock onRecord ((ident, flds) # ms) (g, h) =
     (let rec = parseMessage (clock ident) ident flds;
          (err, h1) = onRecord rec h
      in case err of
           None \<Rightarrow>
             (let (evs, r) = processMessages clock onRecord ms (XACK ident g, h1)
              in (EvHandler rec None # EvXack ident # evs, r))
         | Some msg \<Rightarrow>
             (let (evs, r) = processMessages clock onRecord ms (g, h1)
              in (EvHandler rec (Some msg) # EvLogError ident msg # evs, r)))"





text \<open>The keys of a field array (its elements at even positions) and its key-value pairs.\<close>

fun field_keys :: "string list \<Rightarrow> string list" where
  "field_keys [] = []"
| "field_keys [k] = [k]"
| "field_keys (k # v # rest) = k # field_keys rest"

fun field_pairs :: "string list \<Rightarrow> (string \<times> string) list" where
  "field_pairs [] = []"
| "field_pairs [k] = []"
| "field_pairs (k # v # rest) = (k, v) # field_pairs rest"

text \<open>A key is unpaired when it is the last element of an array of odd length.\<close>

definition unpaired :: "string list \<Rightarrow> string \<Rightarrow> bool" where
  "unpaired flds k = (odd (length flds) \<and> last flds = k)"

text \<open>The value a field array gives a key: that of its last pair, unless the key is unpaired.\<close>

definition field_value :: "string list \<Rightarrow> string \<Rightarrow> string option" where
  "field_value flds k = (if unpaired flds k then None else map_of (rev (field_pairs flds)) k)"

text \<open>A string has a numeric prefix when \<open>parseFloat\<close> finds a decimal literal at its head.\<close>

definition numeric_prefix :: "string \<Rightarrow> bool" where
  "numeric_prefix s =
     (let t = dropWhile is_ws s;
          u = (case t of [] \<Rightarrow> [] | c # r \<Rightarrow> if c = CHR ''-'' \<or> c = CHR ''+'' then r else t)
      in starts_with u ''Infinity'' \<or>
         (case u of
            [] \<Rightarrow> False
          | c # r \<Rightarrow> is_digit c \<or> (c = CHR ''.'' \<and> (case r of [] \<Rightarrow> False | d # r' \<Rightarrow> is_digit d))))"

text \<open>The handler alone, run over the entries of a batch: whether it returned, per entry.\<close>

fun handler_run ::
  "(string \<Rightarrow> int) \<Rightarrow> (WeatherRecord \<Rightarrow> 'h \<Rightarrow> string option \<times> 'h) \<Rightarrow> message list \<Rightarrow> 'h \<Rightarrow> bool list" where
  "handler_run clock onRecord [] h = []"
| "handler_run clock onRecord ((ident, flds) # ms) h =
     (case onRecord (parseMessage (clock ident) ident flds) h of
        (err, h1) \<Rightarrow> (err = None) # handler_run clock onRecord ms h1)"

text \<open>Projections of a trace: the entries acknowledged, handled and delivered, in order.\<close>

fun acks :: "cevent list \<Rightarrow> string list" where
  "acks [] = []"
| "acks (EvXack i # evs) = i # acks evs"
| "acks (e # evs) = acks evs"

fun handled :: "cevent list \<Rightarrow> string list" where
  "handled [] = []"
| "handled (EvHandler r err # evs) = id' r # handled evs"
| "handled (e # evs) = handled evs"

fun delivered :: "cevent list \<Rightarrow> string list" where
  "delivered [] = []"
| "delivered (EvRead i (Some ms) # evs) = map fst ms @ delivered evs"
| "delivered (e # evs) = delivered evs"




subsection \<open>fetcher.ts: the upstream client\<close>

text \<open>
  What an awaited call yields: a value, or an error that is thrown. Of an error the code
  reads its message, its code, the status and the \<open>Retry-After\<close> header of its
  response, and what \<open>axiosRetry.isNetworkError\<close> says of it.
\<close>

record js_error =
  message :: string
  code :: "string option"
  response_status :: "nat option"
  retry_after :: "string option"
  is_network_error :: bool

datatype 'a outcome = Returns 'a | Throws js_error

definition Error :: "string \<Rightarrow> js_error" where
  "Error msg = \<lparr>message = msg, code = None, response_status = None, retry_after = None,
                 is_network_error = False\<rparr>"

text \<open>The \<open>current_weather\<close> object of the upstream body (section 6 of the specification).\<close>

datatype current_weather =
  CurrentWeather (cw_temperature: number) (cw_weathercode: int) (cw_time: int)

definition WMO_CODES :: "(int \<times> string) list" where
  "WMO_CODES =
     [(0, ''Clear sky''),
      (1, ''Mainly clear''), (2, ''Partly cloudy''), (3, ''Overcast''),
      (45, ''Fog''), (48, ''Rime fog''),
      (51, ''Light drizzle''), (53, ''Moderate drizzle''), (55, ''Dense drizzle''),
      (61, ''Slight rain''), (63, ''Moderate rain''), (65, ''Heavy rain''),
      (71, ''Slight snow''), (73, ''Moderate snow''), (75, ''Heavy snow''),
      (80, ''Slight showers''), (81, ''Moderate showers''), (82, ''Violent showers''),
      (95, ''Thunderstorm''), (96, ''Thunderstorm with hail''), (99, ''Thunderstorm with heavy hail'')]"

text \<open>
  The retry policy given to axios-retry. \<open>retryDelay\<close> gets the draw of
  \<open>Math.random()\<close> as an argument. A header counts when it is a non-empty string.
\<close>

definition RETRIES :: nat where "RETRIES = 5"

definition retryCondition :: "js_error \<Rightarrow> bool" where
  "retryCondition err =
     (let status = (case response_status err of Some s \<Rightarrow> s | None \<Rightarrow> 0)
      in is_network_error err \<or> status \<in> set [429, 500, 502, 503, 504])"

definition retryDelay :: "nat \<Rightarrow> js_error \<Rightarrow> real \<Rightarrow> number" where
  "retryDelay retryCount err random =
     (let cap = min 32000 (1000 * 2 ^ retryCount) in
      case retry_after err of
        None \<Rightarrow> Num (random * cap)
      | Some retryAfter \<Rightarrow>
          if retryAfter \<noteq> [] then js_times (parseFloat retryAfter) (Num 1000)
          else Num (random * cap))"

text \<open>
  The difference of two numbers, a number compared with zero, and a number taken as a
  condition (\<open>a - b\<close>, \<open>a <= 0\<close> and \<open>if (a)\<close> in JavaScript).
\<close>

fun js_minus :: "number \<Rightarrow> number \<Rightarrow> number" where
  "js_minus NaN b = NaN"
| "js_minus a NaN = NaN"
| "js_minus (Num x) (Num y) = Num (x - y)"
| "js_minus (Num x) PosInfinity = NegInfinity"
| "js_minus (Num x) NegInfinity = PosInfinity"
| "js_minus PosInfinity (Num y) = PosInfinity"
| "js_minus NegInfinity (Num y) = NegInfinity"
| "js_minus PosInfinity PosInfinity = NaN"
| "js_minus PosInfinity NegInfinity = PosInfinity"
| "js_minus NegInfinity PosInfinity = NegInfinity"
| "js_minus NegInfinity NegInfinity = NaN"

definition js_le_zero :: "number \<Rightarrow> bool" where
  "js_le_zero v = (case v of Num x \<Rightarrow> x \<le> 0 | NegInfinity \<Rightarrow> True | _ \<Rightarrow> False)"

definition truthy :: "number \<Rightarrow> bool" where
  "truthy v = (case v of NaN \<Rightarrow> False | Num x \<Rightarrow> x \<noteq> 0 | _ \<Rightarrow> True)"

text \<open>The client is created with \<open>timeout: 10_000\<close> (milliseconds).\<close>

definition TIMEOUT :: real where "TIMEOUT = 10000"

text \<open>
  axios-retry. A failed request is sent again while fewer than \<open>retries\<close> retries were
  made and \<open>retryCondition\<close> holds of the error, after waiting \<open>retryDelay\<close> of the
  retry's number (from 1) and the error. \<open>shouldResetTimeout\<close> is not set, so the
  timeout of the request is shared by its retries: before a retry, the time the failed
  request took and the delay are subtracted from \<open>config.timeout\<close>; when nothing is
  left the error is thrown and no retry is made, otherwise what is left is the new
  \<open>config.timeout\<close>. (A \<open>config.timeout\<close> that is not truthy skips the check.)

  \<open>serve n\<close> is what the upstream answers to the request sent after \<open>n\<close> retries,
  \<open>duration n\<close> the time that request took, in milliseconds, \<open>random n\<close> the draw
  for the delay that follows it. The result comes with the delays waited, in order.
\<close>

function request_with_retry ::
  "(nat \<Rightarrow> 'a outcome) \<Rightarrow> (nat \<Rightarrow> real) \<Rightarrow> (nat \<Rightarrow> real) \<Rightarrow> number \<Rightarrow> nat
     \<Rightarrow> 'a outcome \<times> number list" where
  "request_with_retry serve random duration timeout retryCount =
     (case serve retryCount of
        Returns d \<Rightarrow> (Returns d, [])
      | Throws err \<Rightarrow>
          if retryCount < RETRIES \<and> retryCondition err then
            if truthy timeout \<and>
               js_le_zero (js_minus (js_minus timeout (Num (duration retryCount)))
                             (retryDelay (retryCount + 1) err (random retryCount)))
            then (Throws err, [])
            else
              (case request_with_retry serve random duration
                      (if truthy timeout
                       then js_minus (js_minus timeout (Num (duration retryCount)))
                              (retryDelay (retryCount + 1) err (random retryCount))
                       else timeout)
                      (retryCount + 1) of
                 (r, delays) \<Rightarrow> (r, retryDelay (retryCount + 1) err (random retryCount) # delays))
          else (Throws err, []))"
  by pat_completeness auto
termination
  by (relation "measure (\<lambda>(serve, random, duration, timeout, retryCount). RETRIES - retryCount)") auto

declare request_with_retry.simps [simp del]

definition http_get :: "(nat \<Rightarrow> 'a outcome) \<Rightarrow> (nat \<Rightarrow> real) \<Rightarrow> (nat \<Rightarrow> real) \<Rightarrow> 'a outcome" where
  "http_get serve random duration = fst (request_with_retry serve random duration (Num TIMEOUT) 0)"

text \<open>The delays waited, and the number of requests sent: one more than the delays.\<close>

definition delays_waited :: "(nat \<Rightarrow> 'a outcome) \<Rightarrow> (nat \<Rightarrow> real) \<Rightarrow> (nat \<Rightarrow> real) \<Rightarrow> number list" where
  "delays_waited serve random duration = snd (request_with_retry serve random duration (Num TIMEOUT) 0)"

definition attempts :: "(nat \<Rightarrow> 'a outcome) \<Rightarrow> (nat \<Rightarrow> real) \<Rightarrow> (nat \<Rightarrow> real) \<Rightarrow> nat" where
  "attempts serve random duration = Suc (length (delays_waited serve random duration))"

text \<open>The value of a finite number.\<close>

definition num_value :: "number \<Rightarrow> real" where
  "num_value v = (case v of Num x \<Rightarrow> x | _ \<Rightarrow> 0)"

subsection \<open>mock-weather.ts: the synthetic producer\<close>

definition CONDITIONS :: "(string \<times> real) list" where
  "CONDITIONS =
     [(''Clear sky'', 20), (''Mainly clear'', 18), (''Partly cloudy'', 16), (''Overcast'', 12),
      (''Fog'', 4), (''Light drizzle'', 6), (''Moderate rain'', 7), (''Heavy rain'', 4),
      (''Slight showers'', 5), (''Thunderstorm'', 3), (''Slight snow'', 3),
      (''Moderate snow'', 1), (''Rime fog'', 1)]"

definition TOTAL_WEIGHT :: real where
  "TOTAL_WEIGHT = foldl (\<lambda>s (c, w). s + w) 0 CONDITIONS"

fun pick_loop :: "(string \<times> real) list \<Rightarrow> real \<Rightarrow> bool \<Rightarrow> string" where
  "pick_loop [] roll canSnow = ''Clear sky''"
| "pick_loop ((condition, weight) # rest) roll canSnow =
     (if roll - weight \<le> 0 then
        (if str_includes condition ''snow'' \<and> \<not> canSnow then ''Moderate rain'' else condition)
      else pick_loop rest (roll - weight) canSnow)"

text \<open>\<open>Math.abs(lat) > 45\<close> is false for NaN and true for an infinity.\<close>

definition pickCondition :: "real \<Rightarrow> number \<Rightarrow> string" where
  "pickCondition random lat =
     (let canSnow = (case lat of Num x \<Rightarrow> \<bar>x\<bar> > 45 | NaN \<Rightarrow> False | _ \<Rightarrow> True)
      in pick_loop CONDITIONS (random * TOTAL_WEIGHT) canSnow)"

text \<open>\<open>Math.round\<close> rounds to the nearest integer, halves upwards.\<close>

definition Math_round :: "real \<Rightarrow> real" where
  "Math_round x = of_int \<lfloor>x + 1 / 2\<rfloor>"

text \<open>\<open>month\<close> is \<open>new Date().getMonth()\<close>, from 0 for January.\<close>

definition mockTemperature :: "nat \<Rightarrow> real \<Rightarrow> number \<Rightarrow> number" where
  "mockTemperature month random lat =
     (case lat of
        Num x \<Rightarrow>
          (let base = 30 - \<bar>x\<bar> * (1 / 2);
               isSummer = (month \<ge> 5 \<and> month \<le> 8);
               isNH = (x \<ge> 0);
               seasonal = (if isSummer = isNH then 5 else - 5);
               noise = (random - 1 / 2) * 8
           in Num (Math_round ((base + seasonal + noise) * 10) / 10))
      | NaN \<Rightarrow> NaN
      | _ \<Rightarrow> NegInfinity)"

text \<open>What the mock reads of its environment: the clock, the month and two random draws.\<close>

record mock_env =
  mock_now :: int
  mock_month :: nat
  random_temperature :: real
  random_condition :: real

definition mockFetchWeather :: "mock_env \<Rightarrow> 'a Location_scheme \<Rightarrow> WeatherPayload" where
  "mockFetchWeather env location =
     \<lparr> city_name = city_name location,
       latitude = latitude location,
       longitude = longitude location,
       temperature = mockTemperature (mock_month env) (random_temperature env) (latitude location),
       weather_condition = pickCondition (random_condition env) (latitude location),
       recorded_at = iso_string (mock_now env) \<rparr>"

text \<open>
  \<open>fetchWeather\<close>. \<open>http\<close> is what \<open>httpClient.get(url)\<close> yields, retries included:
  an error, or a body with or without its \<open>current_weather\<close>. The metrics counters are
  left out.
\<close>

definition fetchWeather ::
  "bool \<Rightarrow> mock_env \<Rightarrow> current_weather option outcome \<Rightarrow> 'a Location_scheme \<Rightarrow> WeatherPayload outcome" where
  "fetchWeather USE_MOCK env http location =
     (if USE_MOCK then Returns (mockFetchWeather env location)
      else
        case http of
          Throws err \<Rightarrow> Throws err
        | Returns data \<Rightarrow>
            (case data of
               None \<Rightarrow> Throws (Error (''Empty response for '' @ city_name location))
             | Some cw \<Rightarrow>
                 (case toISOString (cw_time cw * 1000) of
                    Inl msg \<Rightarrow> Throws (Error msg)
                  | Inr stamp \<Rightarrow>
                      Returns
                        \<lparr> city_name = city_name location,
                          latitude = latitude location,
                          longitude = longitude location,
                          temperature = cw_temperature cw,
                          weather_condition =
                            (case map_of WMO_CODES (cw_weathercode cw) of
                               Some description \<Rightarrow> description
                             | None \<Rightarrow> ''WMO-'' @ show_int (cw_weathercode cw)),
                          recorded_at = stamp \<rparr>)))"

subsection \<open>influx-writer.ts: the time-series writer\<close>

text \<open>
  A point of the InfluxDB client: measurement, tags, fields and timestamp.
  \<open>floatField\<close> throws for a value that is not finite, as the client library does.
\<close>

record point =
  point_measurement :: string
  point_tags :: "(string \<times> string) list"
  point_fields :: "(string \<times> number) list"
  point_timestamp :: "number option"

definition new_Point :: "string \<Rightarrow> point" where
  "new_Point name = \<lparr>point_measurement = name, point_tags = [], point_fields = [], point_timestamp = None\<rparr>"

definition tag :: "string \<Rightarrow> string \<Rightarrow> point \<Rightarrow> point" where
  "tag name v p = p\<lparr>point_tags := point_tags p @ [(name, v)]\<rparr>"

definition floatField :: "string \<Rightarrow> number \<Rightarrow> point \<Rightarrow> string + point" where
  "floatField name v p =
     (if isFinite v then Inr (p\<lparr>point_fields := point_fields p @ [(name, v)]\<rparr>)
      else Inl (''invalid float value for field '' @ name))"

definition timestamp :: "number \<Rightarrow> point \<Rightarrow> point" where
  "timestamp v p = p\<lparr>point_timestamp := Some v\<rparr>"

definition InfluxWriter_write :: "'a WeatherPayload_scheme \<Rightarrow> string + point" where
  "InfluxWriter_write pt =
     (case floatField ''temperature'' (temperature pt)
             (tag ''weather_condition'' (weather_condition pt)
               (tag ''city_name'' (city_name pt) (new_Point ''weather''))) of
        Inl msg \<Rightarrow> Inl msg
      | Inr p1 \<Rightarrow>
          (case floatField ''latitude'' (latitude pt) p1 of
             Inl msg \<Rightarrow> Inl msg
           | Inr p2 \<Rightarrow>
               (case floatField ''longitude'' (longitude pt) p2 of
                  Inl msg \<Rightarrow> Inl msg
                | Inr p3 \<Rightarrow> Inr (timestamp (Date_parse (recorded_at pt)) p3))))"

text \<open>
  The fields of the stream entry a worker appends for a payload. \<open>String\<close> of a number
  is left as a parameter.
\<close>

definition stream_fields :: "(number \<Rightarrow> string) \<Rightarrow> 'a WeatherPayload_scheme \<Rightarrow> string list" where
  "stream_fields String result =
     [''city_name'', city_name result,
      ''latitude'', String (latitude result),
      ''longitude'', String (longitude result),
      ''temperature'', String (temperature result),
      ''weather_condition'', weather_condition result,
      ''recorded_at'', recorded_at result]"

subsection \<open>worker.ts: the worker loop\<close>

text \<open>
  What one round of the loop of \<open>runWorker\<close> does, in order. \<open>item\<close> is what the
  blocking pop returned, \<open>JSON_parse\<close> and \<open>fetch\<close> what \<open>JSON.parse\<close> and
  \<open>fetchWeather\<close> yield. An event is recorded when the call or statement is done:
  the acquire has returned, the fetch is called with a location, a counter of the
  second-bucket is incremented, the entry is appended to the stream. Which bucket is
  taken (the cycle bookkeeping) is not modelled.
\<close>

datatype wevent =
    EvBrpop
  | EvMget
  | EvAcquire
  | EvFetch Location
  | EvBucketOk
  | EvLatency
  | EvXadd "string list"
  | EvLogOk
  | EvNotifyThrottled
  | EvBucketFail
  | EvBucketTimeout
  | EvLogFailed string

text \<open>The \<open>catch\<close> block.\<close>

definition on_error :: "js_error \<Rightarrow> wevent list" where
  "on_error err =
     (if response_status err = Some 429 then [EvNotifyThrottled, EvBucketFail]
      else if code err = Some ''ECONNABORTED'' \<or> str_includes (message err) ''timeout''
      then [EvBucketTimeout]
      else [EvBucketFail]) @ [EvLogFailed (message err)]"

definition runWorker_round ::
  "(string \<times> string) option \<Rightarrow> (string \<Rightarrow> Location outcome) \<Rightarrow> (Location \<Rightarrow> WeatherPayload outcome)
     \<Rightarrow> (number \<Rightarrow> string) \<Rightarrow> wevent list" where
  "runWorker_round item JSON_parse fetch String =
     (case item of
        None \<Rightarrow> [EvBrpop]
      | Some (key, payload) \<Rightarrow>
          [EvBrpop, EvMget, EvAcquire] @
          (case JSON_parse payload of
             Throws err \<Rightarrow> on_error err
           | Returns location \<Rightarrow>
               EvFetch location #
               (case fetch location of
                  Throws err \<Rightarrow> on_error err
                | Returns result \<Rightarrow>
                    [EvBucketOk, EvLatency, EvXadd (stream_fields String result), EvLogOk])))"

text \<open>\<open>a\<close> occurs in a trace before the first occurrence of \<open>b\<close>.\<close>

definition before :: "'e \<Rightarrow> 'e \<Rightarrow> 'e list \<Rightarrow> bool" where
  "before a b tr = (a \<in> set (takeWhile (\<lambda>e. e \<noteq> b) tr))"

subsection \<open>scheduler.ts: the cycle scheduler\<close>

text \<open>
  The keys the scheduler touches, as one client sees them: a key holds a string or a
  list of strings. The three commands of the pipeline, with the replies of Redis: a
  push on a key that holds a string is refused (\<open>WRONGTYPE\<close>) and changes nothing,
  \<open>SET\<close> overwrites whatever the key holds, \<open>INCR\<close> takes an absent key for 0 and
  refuses a value that is not an integer of 64 bits or that would overflow. A
  pipeline runs its commands in the order they were queued and collects the replies;
  a refused command does not stop it. No command of another client is interleaved:
  the workers are not part of this model.
\<close>

datatype rvalue = RString string | RList "string list"

type_synonym keyspace = "string \<rightharpoonup> rvalue"

datatype command = SET string string | DEL string | LPUSH string string

datatype reply = ROk | RInteger int | RError string

definition QUEUE_KEY :: string where "QUEUE_KEY = ''weather:locations:queue''"
definition CYCLE_KEY :: string where "CYCLE_KEY = ''weather:cycle:id''"
definition CYCLE_START :: string where "CYCLE_START = ''weather:cycle:start_ms''"

text \<open>The decimal strings Redis takes for an integer: \<open>show_int\<close> of a 64-bit value.\<close>

definition int_of_string :: "string \<Rightarrow> int option" where
  "int_of_string s =
     (case s of
        [] \<Rightarrow> None
      | c # cs \<Rightarrow>
          (let n = (if c = CHR ''-'' then - int (nat_of_digits cs) else int (nat_of_digits s))
           in if show_int n = s \<and> - (2 ^ 63) \<le> n \<and> n < 2 ^ 63 then Some n else None))"

definition INCR :: "string \<Rightarrow> keyspace \<Rightarrow> reply \<times> keyspace" where
  "INCR key ks =
     (case ks key of
        None \<Rightarrow> (RInteger 1, ks(key \<mapsto> RString (show_int 1)))
      | Some (RList xs) \<Rightarrow>
          (RError ''WRONGTYPE Operation against a key holding the wrong kind of value'', ks)
      | Some (RString s) \<Rightarrow>
          (case int_of_string s of
             None \<Rightarrow> (RError ''ERR value is not an integer or out of range'', ks)
           | Some n \<Rightarrow>
               if n = 2 ^ 63 - 1 then (RError ''ERR increment or decrement would overflow'', ks)
               else (RInteger (n + 1), ks(key \<mapsto> RString (show_int (n + 1))))))"

fun exec_command :: "command \<Rightarrow> keyspace \<Rightarrow> reply \<times> keyspace" where
  "exec_command (SET key v) ks = (ROk, ks(key \<mapsto> RString v))"
| "exec_command (DEL key) ks = (RInteger (if ks key = None then 0 else 1), ks(key := None))"
| "exec_command (LPUSH key v) ks =
     (case ks key of
        None \<Rightarrow> (RInteger 1, ks(key \<mapsto> RList [v]))
      | Some (RList xs) \<Rightarrow> (RInteger (int (length xs) + 1), ks(key \<mapsto> RList (v # xs)))
      | Some (RString s) \<Rightarrow>
          (RError ''WRONGTYPE Operation against a key holding the wrong kind of value'', ks))"

fun pipeline_exec :: "command list \<Rightarrow> keyspace \<Rightarrow> reply list \<times> keyspace" where
  "pipeline_exec [] ks = ([], ks)"
| "pipeline_exec (c # cs) ks =
     (case exec_command c ks of
        (r, ks') \<Rightarrow> (case pipeline_exec cs ks' of (rs, ks'') \<Rightarrow> (r # rs, ks'')))"

definition LLEN :: "string \<Rightarrow> keyspace \<Rightarrow> nat" where
  "LLEN key ks = (case ks key of Some (RList xs) \<Rightarrow> length xs | _ \<Rightarrow> 0)"

text \<open>
  \<open>enqueueLocations\<close>: \<open>stringify\<close> is \<open>JSON.stringify\<close>, \<open>ALL_LOCATIONS\<close> the list
  of \<open>locations.ts\<close>, \<open>now\<close> what \<open>Date.now()\<close> returns. A refused \<open>INCR\<close>
  rejects the promise; otherwise the result is the cycle id, the batch that was sent
  and the keys after it.
\<close>

record enqueued =
  cycleId :: int
  batch :: "command list"
  replies :: "reply list"
  keys_after :: keyspace

definition enqueueLocations ::
  "('l \<Rightarrow> string) \<Rightarrow> 'l list \<Rightarrow> int \<Rightarrow> keyspace \<Rightarrow> string + enqueued" where
  "enqueueLocations stringify ALL_LOCATIONS now ks =
     (case INCR CYCLE_KEY ks of
        (RInteger cycle, ks1) \<Rightarrow>
          (let pipeline = SET CYCLE_START (show_int now) # DEL QUEUE_KEY
                 # map (\<lambda>loc. LPUSH QUEUE_KEY (stringify loc)) ALL_LOCATIONS
           in case pipeline_exec pipeline ks1 of
                (rs, ks2) \<Rightarrow>
                  Inr \<lparr>cycleId = cycle, batch = pipeline, replies = rs, keys_after = ks2\<rparr>)
      | (RError e, ks1) \<Rightarrow> Inl e
      | (ROk, ks1) \<Rightarrow> Inl ''unexpected reply'')"

definition is_push :: "command \<Rightarrow> bool" where
  "is_push c = (case c of LPUSH key v \<Rightarrow> True | _ \<Rightarrow> False)"

text \<open>The value of the cycle counter: 0 when the key is absent.\<close>

definition cycle_counter :: "keyspace \<Rightarrow> int option" where
  "cycle_counter ks =
     (case ks CYCLE_KEY of
        None \<Rightarrow> Some 0
      | Some (RString s) \<Rightarrow> int_of_string s
      | Some (RList xs) \<Rightarrow> None)"

subsection \<open>Sample inputs\<close>

definition pending0 :: "message list" where
  "pending0 = [(''1-0'', [''city_name'', ''Paris'']), (''2-0'', [])]"

definition group0 :: stream_group where
  "group0 = \<lparr>pel = pending0, undelivered = []\<rparr>"

text \<open>A handler that fails on its first call when the record is for Paris, and counts its calls.\<close>

definition handler0 :: "WeatherRecord \<Rightarrow> nat \<Rightarrow> string option \<times> nat" where
  "handler0 r h = (if city_name r = ''Paris'' \<and> h = 0 then Some ''write failed'' else None, h + 1)"

definition clock0 :: "string \<Rightarrow> int" where
  "clock0 ident = 1700000000000"


definition bucket0 :: "hash entry option" where
  "bucket0 = Some ([''tokens'' \<mapsto> 1 / 2, ''last_refill'' \<mapsto> 100], Some 60000)"

definition store0 :: limiter_store where
  "store0 = \<lparr>bucket = None, cooldown = None\<rparr>"

definition err500 :: js_error where
  "err500 = (Error ''Request failed with status code 500'')\<lparr>response_status := Some 500\<rparr>"

definition err501 :: js_error where
  "err501 = (Error ''Request failed with status code 501'')\<lparr>response_status := Some 501\<rparr>"

definition err429 :: js_error where
  "err429 = (Error ''Request failed with status code 429'')
              \<lparr>response_status := Some 429, retry_after := Some ''2''\<rparr>"

definition always500 :: "nat \<Rightarrow> current_weather option outcome" where
  "always500 n = Throws err500"

definition half :: "nat \<Rightarrow> real" where
  "half n = 1 / 2"

definition eighth :: "nat \<Rightarrow> real" where
  "eighth n = 1 / 8"

definition fifty_ms :: "nat \<Rightarrow> real" where
  "fifty_ms n = 50"

definition always429 :: "nat \<Rightarrow> current_weather option outcome" where
  "always429 n = Throws err429"

definition oslo :: Location where
  "oslo = \<lparr>city_name = ''Oslo'', latitude = Num (5991 / 100), longitude = Num (1075 / 100)\<rparr>"

definition oslo_payload :: WeatherPayload where
  "oslo_payload = \<lparr>city_name = ''Oslo'', latitude = Num (5991 / 100), longitude = Num (1075 / 100),
      temperature = Num 3, weather_condition = ''Overcast'', recorded_at = ''2023-11-14T22:13:20.000Z''\<rparr>"

definition parse_oslo :: "string \<Rightarrow> Location outcome" where
  "parse_oslo s = Returns oslo"

definition fetch_oslo :: "Location \<Rightarrow> WeatherPayload outcome" where
  "fetch_oslo l = Returns oslo_payload"

definition String_stub :: "number \<Rightarrow> string" where
  "String_stub v = ''n''"

definition oslo_fields :: "string list" where
  "oslo_fields = [''city_name'', ''Oslo'', ''latitude'', ''n'', ''longitude'', ''n'', ''temperature'', ''n'',
      ''weather_condition'', ''Overcast'', ''recorded_at'', ''2023-11-14T22:13:20.000Z'']"

definition stale_keys :: keyspace where
  "stale_keys = [CYCLE_KEY \<mapsto> RString ''41'', QUEUE_KEY \<mapsto> RList [''left over'']]"

definition overcast_oslo :: current_weather where
  "overcast_oslo = CurrentWeather (Num 3) 3 1700000000"

definition unlisted_oslo :: current_weather where
  "unlisted_oslo = CurrentWeather (Num 3) 4 1700000000"

definition env0 :: mock_env where
  "env0 = \<lparr>mock_now = 1700000600123, mock_month = 10, random_temperature = 1 / 2,
            random_condition = 1 / 2\<rparr>"

section \<open>Properties\<close>

subsection \<open>The token bucket\<close>

lemma lookup_HMSET:
  "lookup T (HMSET T k f1 v1 f2 v2) =
     (case lookup T k of
        None \<Rightarrow> Some ((Map.empty(f1 \<mapsto> v1))(f2 \<mapsto> v2), None)
      | Some (h, x) \<Rightarrow> Some ((h(f1 \<mapsto> v1))(f2 \<mapsto> v2), x))"
  by (cases k) (auto simp: lookup_def HMSET_def split: option.splits if_splits)

lemma lookup_EXPIRE:
  "0 \<le> secs \<Longrightarrow> lookup T (EXPIRE T k secs) =
     (case lookup T k of None \<Rightarrow> None | Some (v, x) \<Rightarrow> Some (v, Some (T + secs * 1000)))"
  by (cases k) (auto simp: lookup_def EXPIRE_def split: option.splits)

lemma HMGET_written:
  "HMGET T (EXPIRE T (HMSET T k f1 v1 f2 v2) 60) f =
     (if f = f2 then Some v2 else if f = f1 then Some v1 else HMGET T k f)"
  by (simp add: HMGET_def lookup_EXPIRE lookup_HMSET split: option.splits)

lemma ttl_written: "ttl_ms T (EXPIRE T (HMSET T k f1 v1 f2 v2) 60) = Some 60000"
  by (simp add: ttl_ms_def lookup_EXPIRE lookup_HMSET split: option.splits)

lemma stored_written:
  "stored T (EXPIRE T (HMSET T k ''tokens'' v1 ''last_refill'' v2) 60) = Some (v1, v2)"
  by (simp add: stored_def HMGET_written)

lemma stored_None: "lookup T k = None \<Longrightarrow> stored T k = None"
  by (simp add: stored_def HMGET_def)

lemma stored_Some:
  "stored T k = Some (a, b) \<Longrightarrow> HMGET T k ''tokens'' = Some a \<and> HMGET T k ''last_refill'' = Some b"
  by (simp add: stored_def split: option.splits)

lemma HMGET_None: "lookup T k = None \<Longrightarrow> HMGET T k f = None"
  by (simp add: HMGET_def)

lemma acquire_round_runs_script:
  "PTTL T (cooldown s) \<le> 0 \<Longrightarrow>
     acquire_round T now_ms s =
       (case CONSUME_LUA T 8 8 (real_of_int now_ms / 1000) (bucket s) of
          (b, granted) \<Rightarrow> (if granted = 1 then Granted else SleepDenied 40, s\<lparr>bucket := b\<rparr>))"
  by (simp add: acquire_round_def CAPACITY_def MAX_RPS_def split: prod.splits)

text \<open>
  Claim C1. The acquire script, run with capacity 8 and refill rate 8 at time \<open>t\<close>,
  does what the specification's algorithm says: from the stored pair (tokens,
  last refill), or from (C, t) when the key is absent, it computes
  \<open>elapsed = max 0 (t - last_refill)\<close> and \<open>tokens' = min C (tokens + elapsed * R)\<close>;
  when \<open>tokens' \<ge> 1\<close> it stores \<open>(tokens' - 1, t)\<close> and returns 1 (granted), otherwise
  it stores \<open>(tokens', t)\<close> and returns 0 (denied); either way the key is left with a
  time to live of 60 seconds.
\<close>

theorem token_bucket_script:
  assumes "stored T key = st" and "lookup T key = None \<or> st \<noteq> None"
  shows "case (spec_token_bucket CAPACITY MAX_RPS t st, CONSUME_LUA T CAPACITY MAX_RPS t key) of
           (((tok, lr), ttl, granted), (key', r)) \<Rightarrow>
              CAPACITY = 8 \<and> MAX_RPS = 8 \<and>
              stored T key' = Some (tok, lr) \<and> ttl_ms T key' = Some (ttl * 1000) \<and>
              r = (if granted then 1 else 0)"
proof (cases st)
  case None
  with assms have "lookup T key = None" by simp
  then have "HMGET T key ''tokens'' = None" "HMGET T key ''last_refill'' = None"
    by (simp_all add: HMGET_None)
  with None show ?thesis
    by (simp add: spec_token_bucket_def CONSUME_LUA_def stored_written ttl_written
        CAPACITY_def MAX_RPS_def)
next
  case (Some p)
  obtain a b where p: "p = (a, b)" by (cases p)
  from assms(1) Some p have "HMGET T key ''tokens'' = Some a" "HMGET T key ''last_refill'' = Some b"
    by (simp_all add: stored_Some)
  with Some p show ?thesis
    by (simp add: spec_token_bucket_def CONSUME_LUA_def stored_written ttl_written
        CAPACITY_def MAX_RPS_def Let_def)
qed

theorem token_bucket_script_witness:
  "stored 5000 bucket0 = Some (1 / 2, 100) \<and>
   spec_token_bucket CAPACITY MAX_RPS (1001 / 10) (Some (1 / 2, 100)) = ((3 / 10, 1001 / 10), 60, True) \<and>
   (case CONSUME_LUA 5000 CAPACITY MAX_RPS (1001 / 10) bucket0 of
      (key', r) \<Rightarrow> stored 5000 key' = Some (3 / 10, 1001 / 10) \<and> ttl_ms 5000 key' = Some 60000 \<and> r = 1)"
proof -
  have s: "stored 5000 bucket0 = Some (1 / 2, 100)"
    by (simp add: stored_def HMGET_def lookup_def bucket0_def)
  have h: "lookup 5000 bucket0 = None \<or> Some (1 / 2 :: real, 100 :: real) \<noteq> None"
    by simp
  have v: "spec_token_bucket CAPACITY MAX_RPS (1001 / 10) (Some (1 / 2, 100)) = ((3 / 10, 1001 / 10), 60, True)"
    by (simp add: spec_token_bucket_def CAPACITY_def MAX_RPS_def)
  from token_bucket_script [OF s h, of "1001 / 10"] s v show ?thesis
    by (simp split: prod.splits)
qed

subsection \<open>The cooldown\<close>

text \<open>
  Claim C8. \<open>notifyThrottled\<close> sets the cooldown key, with a time to live of 30 seconds,
  only when no cooldown is active; called while one is active it changes nothing, so the
  remaining time to live is what it was. Hence after any sequence of further
  notifications, each arriving while the cooldown left by the first is still active, the
  store is the one the first notification alone produced.
\<close>

theorem notifyThrottled_first_wins:
  "(lookup T (cooldown s) = None \<longrightarrow>
      cooldown (notifyThrottled T s) = Some (''1'', Some (T + 30000)) \<and>
      ttl_ms T (cooldown (notifyThrottled T s)) = Some 30000) \<and>
   (lookup T (cooldown s) \<noteq> None \<longrightarrow> notifyThrottled T s = s) \<and>
   ((\<forall>t \<in> set ts. lookup t (cooldown (notifyThrottled T s)) \<noteq> None) \<longrightarrow>
      foldl (\<lambda>s' t. notifyThrottled t s') (notifyThrottled T s) ts = notifyThrottled T s)"
proof (intro conjI impI)
  assume "lookup T (cooldown s) = None"
  then show "cooldown (notifyThrottled T s) = Some (''1'', Some (T + 30000))"
    by (simp add: notifyThrottled_def SET_EX_NX_def COOLDOWN_S_def)
  then show "ttl_ms T (cooldown (notifyThrottled T s)) = Some 30000"
    by (simp add: ttl_ms_def lookup_def)
next
  assume "lookup T (cooldown s) \<noteq> None"
  then show "notifyThrottled T s = s"
    by (auto simp: notifyThrottled_def SET_EX_NX_def)
next
  assume "\<forall>t \<in> set ts. lookup t (cooldown (notifyThrottled T s)) \<noteq> None"
  then show "foldl (\<lambda>s' t. notifyThrottled t s') (notifyThrottled T s) ts = notifyThrottled T s"
  proof (induction ts)
    case Nil
    show ?case by simp
  next
    case (Cons t ts)
    then have "lookup t (cooldown (notifyThrottled T s)) \<noteq> None" by simp
    then have "notifyThrottled t (notifyThrottled T s) = notifyThrottled T s"
      by (auto simp: notifyThrottled_def SET_EX_NX_def)
    with Cons show ?case by simp
  qed
qed

theorem notifyThrottled_first_wins_witness:
  "lookup 1000 (cooldown store0) = None \<and>
   cooldown (notifyThrottled 1000 store0) = Some (''1'', Some 31000) \<and>
   ttl_ms 1000 (cooldown (notifyThrottled 1000 store0)) = Some 30000 \<and>
   lookup 1000 (cooldown (notifyThrottled 1000 store0)) \<noteq> None \<and>
   notifyThrottled 1000 (notifyThrottled 1000 store0) = notifyThrottled 1000 store0 \<and>
   foldl (\<lambda>s' t. notifyThrottled t s') (notifyThrottled 1000 store0) [1000, 1040, 31000]
     = notifyThrottled 1000 store0 \<and>
   ttl_ms 1040 (cooldown (foldl (\<lambda>s' t. notifyThrottled t s') (notifyThrottled 1000 store0) [1000, 1040]))
     = Some 29960"
proof -
  have a: "lookup 1000 (cooldown store0) = None"
    by (simp add: store0_def lookup_def)
  have c: "cooldown (notifyThrottled 1000 store0) = Some (''1'', Some 31000)"
    by (simp add: notifyThrottled_def SET_EX_NX_def COOLDOWN_S_def store0_def lookup_def)
  have l: "\<forall>t \<in> set [1000, 1040, 31000]. lookup t (cooldown (notifyThrottled 1000 store0)) \<noteq> None"
    by (simp add: c lookup_def)
  have l2: "\<forall>t \<in> set [1000, 1040]. lookup t (cooldown (notifyThrottled 1000 store0)) \<noteq> None"
    by (simp add: c lookup_def)
  have l1: "lookup 1000 (cooldown (notifyThrottled 1000 store0)) \<noteq> None"
    by (simp add: c lookup_def)
  note w = notifyThrottled_first_wins [of 1000 store0 "[1000, 1040, 31000]"]
  note w2 = notifyThrottled_first_wins [of 1000 store0 "[1000, 1040]"]
  note w1 = notifyThrottled_first_wins [of 1000 "notifyThrottled 1000 store0" "[]"]
  from w a l have f: "foldl (\<lambda>s' t. notifyThrottled t s') (notifyThrottled 1000 store0) [1000, 1040, 31000]
     = notifyThrottled 1000 store0"
    by blast
  from w2 l2 have f2: "foldl (\<lambda>s' t. notifyThrottled t s') (notifyThrottled 1000 store0) [1000, 1040]
     = notifyThrottled 1000 store0"
    by blast
  from w1 l1 have i: "notifyThrottled 1000 (notifyThrottled 1000 store0) = notifyThrottled 1000 store0"
    by blast
  from w a have t: "ttl_ms 1000 (cooldown (notifyThrottled 1000 store0)) = Some 30000"
    by blast
  have t2: "ttl_ms 1040 (cooldown (notifyThrottled 1000 store0)) = Some 29960"
    by (simp add: c ttl_ms_def lookup_def)
  show ?thesis
    unfolding f2 using a c t l1 i f t2 by simp
qed

subsection \<open>The consumer: parseMessage\<close>

lemma property_fields_map:
  "property (fields_map flds m) k =
     (if unpaired flds k then None
      else case map_of (rev (field_pairs flds)) k of Some v \<Rightarrow> Some v | None \<Rightarrow> property m k)"
proof (induction flds m rule: fields_map.induct)
  case (1 m)
  show ?case by (simp add: unpaired_def)
next
  case (2 k' m)
  show ?case by (simp add: unpaired_def property_def)
next
  case (3 k' v rest m)
  have u: "unpaired (k' # v # rest) k = unpaired rest k"
    by (cases rest) (auto simp: unpaired_def)
  have p: "property (m(k' \<mapsto> Some v)) k = (if k = k' then Some v else property m k)"
    by (simp add: property_def)
  have "property (fields_map (k' # v # rest) m) k = property (fields_map rest (m(k' \<mapsto> Some v))) k"
    by simp
  also have "\<dots> = (if unpaired rest k then None
      else case map_of (rev (field_pairs rest)) k of Some x \<Rightarrow> Some x
           | None \<Rightarrow> property (m(k' \<mapsto> Some v)) k)"
    by (rule 3)
  also have "\<dots> = (if unpaired (k' # v # rest) k then None
      else case map_of (rev (field_pairs (k' # v # rest))) k of Some x \<Rightarrow> Some x
           | None \<Rightarrow> property m k)"
    by (simp add: u p map_add_def split: option.splits)
  finally show ?case .
qed

lemma property_fields_map_empty:
  "property (fields_map flds Map.empty) k = field_value flds k"
proof -
  have "property Map.empty k = None" by (simp add: property_def)
  then show ?thesis
    by (simp add: property_fields_map field_value_def split: option.splits)
qed

lemma field_value_None:
  "field_value flds k = None \<longleftrightarrow> k \<notin> set (field_keys flds) \<or> unpaired flds k"
proof -
  have "fst ` set (field_pairs flds) \<union> {k. unpaired flds k} = set (field_keys flds)"
    by (induction flds rule: field_keys.induct) (auto simp: unpaired_def)
  then show ?thesis
    by (auto simp: field_value_def map_of_eq_None_iff)
qed

lemma parseFloat_NaN: "parseFloat v = NaN \<longleftrightarrow> \<not> numeric_prefix v"
proof -
  define t where "t = dropWhile is_ws v"
  define u where "u = (case t of [] \<Rightarrow> [] | c # r \<Rightarrow> if c = CHR ''-'' \<or> c = CHR ''+'' then r else t)"
  have np: "numeric_prefix v = (starts_with u ''Infinity'' \<or>
         (case u of
            [] \<Rightarrow> False
          | c # r \<Rightarrow> is_digit c \<or> (c = CHR ''.'' \<and> (case r of [] \<Rightarrow> False | d # r' \<Rightarrow> is_digit d))))"
    unfolding numeric_prefix_def Let_def u_def t_def by (rule refl)
  have si [simp]: "\<And>b. sign_inf b \<noteq> NaN"
    by (simp add: sign_inf_def)
  show ?thesis
  proof (cases "starts_with u ''Infinity''")
    case True
    then show ?thesis
      by (simp add: parseFloat_def np t_def [symmetric] u_def [symmetric] sign_inf_def Let_def)
  next
    case False
    show ?thesis
    proof (cases u)
      case Nil
      with False show ?thesis
        by (simp add: parseFloat_def np t_def [symmetric] u_def [symmetric] Let_def)
    next
      case (Cons c r)
      show ?thesis
      proof (cases "is_digit c")
        case True
        with Cons False show ?thesis
          by (simp add: parseFloat_def np t_def [symmetric] u_def [symmetric] Let_def)
      next
        case nd: False
        have d: "dropWhile is_digit u = u" using Cons nd by simp
        have "takeWhile is_digit r = [] \<longleftrightarrow> (case r of [] \<Rightarrow> True | d # r' \<Rightarrow> \<not> is_digit d)"
          by (cases r) auto
        with Cons nd False d show ?thesis
          by (simp add: parseFloat_def np t_def [symmetric] u_def [symmetric] Let_def split: list.splits)
      qed
    qed
  qed
qed

text \<open>
  Claim C10, as amended. \<open>parseMessage\<close> returns a record for every entry id and every
  field array. A default (city and condition \<open>unknown\<close>, numerics 0, timestamp now)
  applies exactly when the array gives the key no value: the key is at no even position,
  or it is the unpaired last element of an array of odd length. Otherwise the field is
  the value of the key's last pair, and for latitude, longitude and temperature its
  \<open>parseFloat\<close>, which is NaN exactly when the value has no numeric prefix.
\<close>

theorem parseMessage_defaults:
  "parseMessage now ident flds =
     \<lparr> city_name = (case field_value flds ''city_name'' of None \<Rightarrow> ''unknown'' | Some v \<Rightarrow> v),
       latitude = (case field_value flds ''latitude'' of None \<Rightarrow> Num 0 | Some v \<Rightarrow> parseFloat v),
       longitude = (case field_value flds ''longitude'' of None \<Rightarrow> Num 0 | Some v \<Rightarrow> parseFloat v),
       temperature = (case field_value flds ''temperature'' of None \<Rightarrow> Num 0 | Some v \<Rightarrow> parseFloat v),
       weather_condition = (case field_value flds ''weather_condition'' of None \<Rightarrow> ''unknown'' | Some v \<Rightarrow> v),
       recorded_at = (case field_value flds ''recorded_at'' of None \<Rightarrow> iso_string now | Some v \<Rightarrow> v),
       id' = ident \<rparr>
   \<and> (field_value flds k = None \<longleftrightarrow> k \<notin> set (field_keys flds) \<or> unpaired flds k)
   \<and> (field_value flds k = Some v \<longrightarrow> (k, v) \<in> set (field_pairs flds))
   \<and> (parseFloat v = NaN \<longleftrightarrow> \<not> numeric_prefix v)"
proof -
  have z: "parseFloat ''0'' = Num 0" by code_simp
  have a: "field_value flds k = Some v \<longrightarrow> (k, v) \<in> set (field_pairs flds)"
    by (auto simp: field_value_def dest: map_of_SomeD split: if_splits)
  have b: "parseMessage now ident flds =
     \<lparr> city_name = (case field_value flds ''city_name'' of None \<Rightarrow> ''unknown'' | Some v \<Rightarrow> v),
       latitude = (case field_value flds ''latitude'' of None \<Rightarrow> Num 0 | Some v \<Rightarrow> parseFloat v),
       longitude = (case field_value flds ''longitude'' of None \<Rightarrow> Num 0 | Some v \<Rightarrow> parseFloat v),
       temperature = (case field_value flds ''temperature'' of None \<Rightarrow> Num 0 | Some v \<Rightarrow> parseFloat v),
       weather_condition = (case field_value flds ''weather_condition'' of None \<Rightarrow> ''unknown'' | Some v \<Rightarrow> v),
       recorded_at = (case field_value flds ''recorded_at'' of None \<Rightarrow> iso_string now | Some v \<Rightarrow> v),
       id' = ident \<rparr>"
    by (simp add: parseMessage_def property_fields_map_empty nullish_def z split: option.splits)
  from a b field_value_None [of flds k] parseFloat_NaN [of v] show ?thesis
    by blast
qed

theorem parseMessage_defaults_witness:
  "parseMessage 1700000000000 ''1-0'' [''latitude'', ''abc'', ''city_name'', ''Paris''] =
     \<lparr> city_name = ''Paris'', latitude = NaN, longitude = Num 0, temperature = Num 0,
       weather_condition = ''unknown'', recorded_at = ''2023-11-14T22:13:20.000Z'', id' = ''1-0'' \<rparr>
   \<and> field_value [''latitude'', ''abc'', ''city_name'', ''Paris''] ''latitude'' = Some ''abc''
   \<and> (''latitude'', ''abc'') \<in> set (field_pairs [''latitude'', ''abc'', ''city_name'', ''Paris''])
   \<and> \<not> numeric_prefix ''abc'' \<and> parseFloat ''abc'' = NaN"
proof -
  have f: "field_value [''latitude'', ''abc'', ''city_name'', ''Paris''] ''latitude'' = Some ''abc''"
      "field_value [''latitude'', ''abc'', ''city_name'', ''Paris''] ''city_name'' = Some ''Paris''"
      "field_value [''latitude'', ''abc'', ''city_name'', ''Paris''] ''longitude'' = None"
      "field_value [''latitude'', ''abc'', ''city_name'', ''Paris''] ''temperature'' = None"
      "field_value [''latitude'', ''abc'', ''city_name'', ''Paris''] ''weather_condition'' = None"
      "field_value [''latitude'', ''abc'', ''city_name'', ''Paris''] ''recorded_at'' = None"
    by code_simp+
  have n: "\<not> numeric_prefix ''abc''" by code_simp
  have i: "iso_string 1700000000000 = ''2023-11-14T22:13:20.000Z''" by code_simp
  from parseMessage_defaults [of 1700000000000 "''1-0''" "[''latitude'', ''abc'', ''city_name'', ''Paris'']"
      "''latitude''" "''abc''"] f n i
  show ?thesis by simp
qed

text \<open>
  The claim as first stated fails on arrays of odd length: a key that is present, even
  with a value, gets the default when it is also the unpaired last element.
\<close>

theorem parseMessage_default_despite_key:
  "''latitude'' \<in> set (field_keys [''latitude'', ''5'', ''latitude''])
   \<and> (''latitude'', ''5'') \<in> set (field_pairs [''latitude'', ''5'', ''latitude''])
   \<and> parseFloat ''5'' = Num 5
   \<and> latitude (parseMessage 0 ''1-0'' [''latitude'', ''5'', ''latitude'']) = Num 0
   \<and> ''city_name'' \<in> set (field_keys [''city_name''])
   \<and> city_name (parseMessage 0 ''1-0'' [''city_name'']) = ''unknown''"
  by code_simp

subsection \<open>The consumer: acknowledgement and pending recovery\<close>

lemma acks_append: "acks (xs @ ys) = acks xs @ acks ys"
  by (induction xs rule: acks.induct) simp_all



lemma id_parseMessage: "id' (parseMessage now ident flds) = ident"
  by (simp add: parseMessage_def Let_def)

text \<open>What a batch does: the acknowledged entries are those whose handler returned.\<close>

lemma processMessages_acks:
  "processMessages clock onRecord msgs (g, h) = (evs, g', h') \<Longrightarrow>
     acks evs = map (\<lambda>(m, ok). fst m) (filter snd (zip msgs (handler_run clock onRecord msgs h)))
     \<and> pel g' = filter (\<lambda>m. fst m \<notin> set (acks evs)) (pel g)
     \<and> undelivered g' = undelivered g
     \<and> handled evs = map fst msgs
     \<and> delivered evs = []
     \<and> (\<forall>i r. EvRead i r \<notin> set evs)"
proof (induction msgs arbitrary: g h evs g' h')
  case Nil
  then show ?case by simp
next
  case (Cons m ms)
  obtain ident flds where m: "m = (ident, flds)" by (cases m)
  obtain err h1 where o: "onRecord (parseMessage (clock ident) ident flds) h = (err, h1)"
    by (cases "onRecord (parseMessage (clock ident) ident flds) h")
  show ?case
  proof (cases err)
    case None
    obtain evs1 g1 h2 where r: "processMessages clock onRecord ms (XACK ident g, h1) = (evs1, g1, h2)"
      by (cases "processMessages clock onRecord ms (XACK ident g, h1)")
    from Cons.prems m o None r
    have e: "evs = EvHandler (parseMessage (clock ident) ident flds) None # EvXack ident # evs1"
      and g': "g' = g1" and h': "h' = h2"
      by simp_all
    note ih = Cons.IH [OF r]
    have p: "pel (XACK ident g) = filter (\<lambda>m. fst m \<noteq> ident) (pel g)"
      and u: "undelivered (XACK ident g) = undelivered g"
      by (simp_all add: XACK_def)
    from ih show ?thesis
      by (simp add: e g' h' m o None p u id_parseMessage conj_commute)
  next
    case (Some msg)
    obtain evs1 g1 h2 where r: "processMessages clock onRecord ms (g, h1) = (evs1, g1, h2)"
      by (cases "processMessages clock onRecord ms (g, h1)")
    from Cons.prems m o Some r
    have e: "evs = EvHandler (parseMessage (clock ident) ident flds) (Some msg) # EvLogError ident msg # evs1"
      and g': "g' = g1" and h': "h' = h2"
      by simp_all
    note ih = Cons.IH [OF r]
    from ih show ?thesis
      by (simp add: e g' h' m o Some id_parseMessage)
  qed
qed

lemma length_handler_run: "length (handler_run clock onRecord msgs h) = length msgs"
  by (induction msgs arbitrary: h) (auto split: prod.splits)

lemma acked_index:
  assumes "distinct (map fst msgs)" and "length oks = length msgs" and "i < length msgs"
  shows "fst (msgs ! i) \<in> set (map (\<lambda>(m, ok). fst m) (filter snd (zip msgs oks))) \<longleftrightarrow> oks ! i"
proof
  assume "fst (msgs ! i) \<in> set (map (\<lambda>(m, ok). fst m) (filter snd (zip msgs oks)))"
  then obtain m ok where mem: "(m, ok) \<in> set (zip msgs oks)" and ok: "ok" and f: "fst m = fst (msgs ! i)"
    by auto
  from mem obtain j where j: "j < length msgs" "msgs ! j = m" "oks ! j = ok"
    by (auto simp: set_zip)
  from assms(1) j(1) assms(3) f j(2) have "j = i"
    by (auto simp: distinct_conv_nth)
  with j ok show "oks ! i" by simp
next
  assume "oks ! i"
  moreover from assms have "(msgs ! i, oks ! i) \<in> set (zip msgs oks)"
    by (auto simp: set_zip)
  ultimately show "fst (msgs ! i) \<in> set (map (\<lambda>(m, ok). fst m) (filter snd (zip msgs oks)))"
    by force
qed

text \<open>
  Claim C3. For every entry of a batch delivered to the consumer (entry ids are distinct),
  \<open>XACK\<close> is issued for the entry if and only if the record handler returned without
  error for it; the handler is called once per entry, in order; an entry whose handler
  failed is not acknowledged and stays in the pending list, an entry whose handler
  returned leaves it.
\<close>

theorem ack_iff_handler_returned:
  assumes "processMessages clock onRecord msgs (g, h) = (evs, g', h')"
    and "distinct (map fst msgs)" and "i < length msgs"
  shows "(EvXack (fst (msgs ! i)) \<in> set evs \<longleftrightarrow> handler_run clock onRecord msgs h ! i)
       \<and> (msgs ! i \<in> set (pel g') \<longleftrightarrow> msgs ! i \<in> set (pel g) \<and> \<not> handler_run clock onRecord msgs h ! i)
       \<and> handled evs = map fst msgs"
proof -
  note pm = processMessages_acks [OF assms(1)]
  have s: "\<And>x es. EvXack x \<in> set es \<longleftrightarrow> x \<in> set (acks es)"
  proof -
    fix x es show "EvXack x \<in> set es \<longleftrightarrow> x \<in> set (acks es)"
      by (induction es rule: acks.induct) auto
  qed
  have a: "fst (msgs ! i) \<in> set (acks evs) \<longleftrightarrow> handler_run clock onRecord msgs h ! i"
    using pm acked_index [OF assms(2) length_handler_run assms(3), of clock onRecord h] by simp
  from pm have "pel g' = filter (\<lambda>m. fst m \<notin> set (acks evs)) (pel g)" by simp
  then have "msgs ! i \<in> set (pel g') \<longleftrightarrow> msgs ! i \<in> set (pel g) \<and> fst (msgs ! i) \<notin> set (acks evs)"
    by auto
  with a s pm show ?thesis by simp
qed







theorem ack_iff_handler_returned_witness:
  "handler_run clock0 handler0 pending0 0 = [False, True] \<and>
   (case processMessages clock0 handler0 pending0 (group0, 0) of
      (evs, g', h') \<Rightarrow>
        EvXack ''1-0'' \<notin> set evs \<and> EvXack ''2-0'' \<in> set evs \<and>
        (''1-0'', [''city_name'', ''Paris'']) \<in> set (pel g') \<and> (''2-0'', []) \<notin> set (pel g') \<and>
        handled evs = [''1-0'', ''2-0''])"
proof -
  obtain evs g' h' where pm: "processMessages clock0 handler0 pending0 (group0, 0) = (evs, g', h')"
    by (cases "processMessages clock0 handler0 pending0 (group0, 0)")
  have d: "distinct (map fst pending0)" by (simp add: pending0_def)
  have hr: "handler_run clock0 handler0 pending0 0 = [False, True]" by code_simp
  have p: "pel group0 = pending0" by (simp add: group0_def)
  have i0: "0 < length pending0" and i1: "1 < length pending0" by (simp_all add: pending0_def)
  have n0: "pending0 ! 0 = (''1-0'', [''city_name'', ''Paris''])" and n1: "pending0 ! 1 = (''2-0'', [])"
    by (simp_all add: pending0_def)
  note w0 = ack_iff_handler_returned [OF pm d i0]
  note w1 = ack_iff_handler_returned [OF pm d i1]
  from w0 w1 hr show ?thesis
    by (simp add: pm n0 n1 p) (simp add: pending0_def)
qed



subsection \<open>The retry policy\<close>

lemma request_with_retry_Throws:
  assumes "serve n = Throws err" and "delay = retryDelay (Suc n) err (random n)"
    and "left = js_minus (js_minus b (Num (duration n))) delay"
  shows "request_with_retry serve random duration b n =
     (if n < RETRIES \<and> retryCondition err then
        if truthy b \<and> js_le_zero left then (Throws err, [])
        else (case request_with_retry serve random duration (if truthy b then left else b) (Suc n) of
                (r, ds) \<Rightarrow> (r, delay # ds))
      else (Throws err, []))"
  unfolding assms(2,3) by (subst request_with_retry.simps) (simp add: assms(1))

lemma request_with_retry_Returns:
  "serve n = Returns d \<Longrightarrow> request_with_retry serve random duration b n = (Returns d, [])"
  by (subst request_with_retry.simps) simp

lemma request_with_retry_run:
  "request_with_retry serve random duration b n = (res, ds) \<Longrightarrow>
     length ds \<le> RETRIES - n
     \<and> res = serve (n + length ds)
     \<and> (\<forall>m < length ds. \<exists>e. serve (n + m) = Throws e \<and> retryCondition e
            \<and> ds ! m = retryDelay (Suc (n + m)) e (random (n + m)))"
proof (induction "RETRIES - n" arbitrary: n b res ds)
  case 0
  then have n: "\<not> n < RETRIES" by simp
  show ?case
  proof (cases "serve n")
    case (Returns d)
    with "0.prems" show ?thesis by (simp add: request_with_retry_Returns)
  next
    case (Throws err)
    from "0.prems" n show ?thesis
      by (simp add: request_with_retry_Throws [where serve = serve and n = n and err = "err" and delay = "retryDelay (Suc n) err (random n)" and random = random and left = "js_minus (js_minus b (Num (duration n))) (retryDelay (Suc n) err (random n))" and b = "b" and duration = duration] Throws)
  qed
next
  case (Suc k)
  show ?case
  proof (cases "serve n")
    case (Returns d)
    with Suc.prems show ?thesis by (simp add: request_with_retry_Returns)
  next
    case (Throws err)
    define delay where "delay = retryDelay (Suc n) err (random n)"
    define left where "left = js_minus (js_minus b (Num (duration n))) delay"
    define b' where "b' = (if truthy b then left else b)"
    note eq = request_with_retry_Throws [where serve = serve and n = n and err = "err" and delay = "delay" and random = random and left = "left" and b = "b" and duration = duration, OF Throws delay_def left_def, folded b'_def]
    show ?thesis
    proof (cases "n < RETRIES \<and> retryCondition err \<and> \<not> (truthy b \<and> js_le_zero left)")
      case False
      with Suc.prems have "res = Throws err" "ds = []"
        unfolding eq by (auto split: if_splits)
      with Throws show ?thesis by simp
    next
      case c: True
      obtain r ds' where rec: "request_with_retry serve random duration b' (Suc n) = (r, ds')"
        by (cases "request_with_retry serve random duration b' (Suc n)")
      from Suc.prems c have res: "res = r" and ds: "ds = delay # ds'"
        unfolding eq rec by simp_all
      from Suc.hyps(2) have k: "k = RETRIES - Suc n" by simp
      note ih = Suc.hyps(1) [OF k rec]
      from ih have "length ds' \<le> RETRIES - Suc n" by blast
      with c have a: "length ds \<le> RETRIES - n" unfolding ds by simp arith
      have b: "res = serve (n + length ds)" using ih by (simp add: ds res)
      have d: "\<forall>m < length ds. \<exists>e. serve (n + m) = Throws e \<and> retryCondition e
            \<and> ds ! m = retryDelay (Suc (n + m)) e (random (n + m))"
      proof (intro allI impI)
        fix m assume m: "m < length ds"
        show "\<exists>e. serve (n + m) = Throws e \<and> retryCondition e
            \<and> ds ! m = retryDelay (Suc (n + m)) e (random (n + m))"
        proof (cases m)
          case 0
          with Throws c show ?thesis by (simp add: ds delay_def)
        next
          case (Suc m')
          with m have "m' < length ds'" by (simp add: ds)
          with ih obtain e where "serve (Suc n + m') = Throws e" "retryCondition e"
            "ds' ! m' = retryDelay (Suc (Suc n + m')) e (random (Suc n + m'))"
            by blast
          with Suc show ?thesis by (simp add: ds)
        qed
      qed
      from a b d show ?thesis by blast
    qed
  qed
qed

text \<open>What the retries made have used of the timeout, when the delays are finite.\<close>

lemma request_with_retry_budget:
  "request_with_retry serve random duration (Num b) n = (res, ds) \<Longrightarrow> 0 < b \<Longrightarrow>
     list_all isFinite ds \<Longrightarrow> ds \<noteq> [] \<Longrightarrow>
     (\<Sum>m < length ds. duration (n + m)) + sum_list (map num_value ds) < b"
proof (induction "length ds" arbitrary: b n ds res)
  case 0
  then show ?case by simp
next
  case (Suc k)
  from Suc.prems(1,4) obtain err where th: "serve n = Throws err"
    by (cases "serve n") (auto simp: request_with_retry_Returns)
  define delay where "delay = retryDelay (Suc n) err (random n)"
  define left where "left = js_minus (js_minus (Num b) (Num (duration n))) delay"
  have tb: "truthy (Num b)" using Suc.prems(2) by (simp add: truthy_def)
  note eq = request_with_retry_Throws [where serve = serve and n = n and err = "err" and delay = "delay" and random = random and left = "left" and b = "Num b" and duration = duration, OF th delay_def left_def]
  from Suc.prems(1,4) have c: "n < RETRIES \<and> retryCondition err \<and> \<not> js_le_zero left"
    unfolding eq using tb by (auto split: if_splits)
  obtain r ds' where rec: "request_with_retry serve random duration left (Suc n) = (r, ds')"
    by (cases "request_with_retry serve random duration left (Suc n)")
  from Suc.prems(1) c tb have ds: "ds = delay # ds'"
    unfolding eq by (simp add: rec)
  from Suc.prems(3) ds obtain x where x: "delay = Num x"
    by (cases delay) (auto simp: isFinite_def)
  have l: "left = Num (b - duration n - x)" by (simp add: left_def x)
  with c have pos: "0 < b - duration n - x" by (simp add: js_le_zero_def)
  show ?case
  proof (cases "ds' = []")
    case True
    with pos show ?thesis by (simp add: ds x num_value_def)
  next
    case False
    from Suc.hyps(2) have k: "k = length ds'" by (simp add: ds)
    from Suc.prems(3) have f: "list_all isFinite ds'" by (simp add: ds)
    from rec have rec': "request_with_retry serve random duration (Num (b - duration n - x)) (Suc n) = (r, ds')"
      by (simp add: l)
    from Suc.hyps(1) [OF k rec' pos f False]
    have "(\<Sum>m < length ds'. duration (Suc n + m)) + sum_list (map num_value ds') < b - duration n - x" .
    moreover have "(\<Sum>m < length ds. duration (n + m)) = duration n + (\<Sum>m < length ds'. duration (Suc n + m))"
    proof -
      have "(\<Sum>m < Suc (length ds'). duration (n + m))
          = duration (n + 0) + (\<Sum>m < length ds'. duration (n + Suc m))"
        by (rule sum.lessThan_Suc_shift)
      then show ?thesis by (simp add: ds)
    qed
    ultimately show ?thesis by (simp add: ds x num_value_def)
  qed
qed

text \<open>When the timeout is enough for them, all the retries are made.\<close>

lemma request_with_retry_all:
  assumes "\<forall>m. n \<le> m \<and> m \<le> 5 \<longrightarrow> serve m = Throws (errs m) \<and> retryCondition (errs m)"
    and "\<forall>m. n \<le> m \<and> m < 5 \<longrightarrow> retryDelay (Suc m) (errs m) (random m) = Num (xs m) \<and> 0 \<le> xs m \<and> 0 \<le> duration m"
    and "(\<Sum>m = n..<5. duration m + xs m) < b" and "n \<le> 5"
  shows "request_with_retry serve random duration (Num b) n = (serve 5, map (\<lambda>m. Num (xs m)) [n..<5])"
  using assms
proof (induction "5 - n" arbitrary: n b)
  case 0
  then have n: "n = 5" by simp
  with "0.prems"(1) have s: "serve 5 = Throws (errs 5)" by simp
  show ?case
    by (simp add: n request_with_retry_Throws [where serve = serve and n = 5 and err = "errs 5" and delay = "retryDelay (Suc 5) (errs 5) (random 5)" and random = random and left = "js_minus (js_minus (Num b) (Num (duration 5))) (retryDelay (Suc 5) (errs 5) (random 5))" and b = "Num b" and duration = duration] RETRIES_def s)
next
  case (Suc k)
  then have n: "n < 5" by simp
  from Suc.prems(1) n have s: "serve n = Throws (errs n)" "retryCondition (errs n)" by simp_all
  from Suc.prems(2) n have d: "retryDelay (Suc n) (errs n) (random n) = Num (xs n)" "0 \<le> xs n" "0 \<le> duration n"
    by simp_all
  have split: "(\<Sum>m = n..<5. duration m + xs m) = duration n + xs n + (\<Sum>m = Suc n..<5. duration m + xs m)"
    using n by (simp add: sum.atLeast_Suc_lessThan)
  have nn: "0 \<le> (\<Sum>m = Suc n..<5. duration m + xs m)"
    using Suc.prems(2) by (intro sum_nonneg) simp
  from Suc.prems(3) split nn d have pos: "0 < b - duration n - xs n" "0 < b" by linarith+
  have k: "k = 5 - Suc n" using Suc.hyps(2) by simp
  have p1: "\<forall>m. Suc n \<le> m \<and> m \<le> 5 \<longrightarrow> serve m = Throws (errs m) \<and> retryCondition (errs m)"
    using Suc.prems(1) by simp
  have p2: "\<forall>m. Suc n \<le> m \<and> m < 5 \<longrightarrow> retryDelay (Suc m) (errs m) (random m) = Num (xs m) \<and> 0 \<le> xs m \<and> 0 \<le> duration m"
    using Suc.prems(2) by simp
  have p3: "(\<Sum>m = Suc n..<5. duration m + xs m) < b - duration n - xs n"
    using Suc.prems(3) split by linarith
  have p4: "Suc n \<le> 5" using n by simp
  note ih = Suc.hyps(1) [OF k p1 p2 p3 p4]
  have up: "[n..<5] = n # [Suc n..<5]" using n by (simp add: upt_conv_Cons)
  have l: "js_minus (js_minus (Num b) (Num (duration n))) (Num (xs n)) = Num (b - duration n - xs n)"
    by simp
  show ?case
    unfolding request_with_retry_Throws [where serve = serve and n = n and err = "errs n" and delay = "Num (xs n)" and random = random and left = "Num (b - duration n - xs n)" and b = "Num b" and duration = duration, OF s(1) d(1) [symmetric] l [symmetric]] up
    using s(2) pos n by (simp add: RETRIES_def truthy_def js_le_zero_def ih)
qed

lemma retryCondition_iff:
  "retryCondition err \<longleftrightarrow>
     is_network_error err \<or> response_status err \<in> {Some 429, Some 500, Some 502, Some 503, Some 504}"
  by (cases "response_status err") (auto simp: retryCondition_def)

lemma retryDelay_jitter:
  assumes "retry_after err = None \<or> retry_after err = Some []" and "0 \<le> r" and "r < 1"
  shows "\<exists>d. retryDelay n err r = Num d \<and> d = r * min 32000 (1000 * 2 ^ n) \<and> 0 \<le> d \<and> d < 32000"
proof -
  define cap :: real where "cap = min 32000 (1000 * 2 ^ n)"
  have c: "0 < cap" "cap \<le> 32000" by (simp_all add: cap_def)
  from assms(1) have "retryDelay n err r = Num (r * cap)"
    by (auto simp: retryDelay_def cap_def)
  moreover have "0 \<le> r * cap" using assms(2) c by simp
  moreover have "r * cap < 32000"
  proof -
    have "r * cap < 1 * cap" using assms(3) c by (intro mult_strict_right_mono)
    then have "r * cap < cap" by (simp only: mult_1)
    with c show ?thesis by linarith
  qed
  ultimately show ?thesis by (simp add: cap_def)
qed

text \<open>
  Claim C5, as amended. The upstream request is sent at most 6 times: once, and again
  after each of up to 5 retries. A retry is made only while the client's timeout of 10
  seconds, which the retries share, is not used up: the time each failed request took
  and each delay waited are subtracted from it, so for finite delays these sum to less
  than 10000 ms; when every answer is a retry-eligible error and the five delays and
  request times (none negative) sum to less than 10000 ms, all six requests are sent.
  An error is retried exactly when it is a network error or its response status is 429,
  500, 502, 503 or 504. Without a \<open>Retry-After\<close> header the delay before retry \<open>n\<close>
  is the random draw times \<open>min 32000 (1000 * 2 ^ n)\<close> milliseconds (full jitter, below
  32 seconds); a non-empty \<open>Retry-After\<close> header, read as seconds, replaces it. The
  call yields what the last request sent yielded: every request before it failed with a
  retry-eligible error, and when no retry follows an error, that error is thrown.
\<close>

theorem retry_policy:
  "attempts serve random duration \<le> 6
   \<and> http_get serve random duration = serve (attempts serve random duration - 1)
   \<and> (\<forall>m < attempts serve random duration - 1.
         \<exists>e. serve m = Throws e \<and> retryCondition e
           \<and> delays_waited serve random duration ! m = retryDelay (Suc m) e (random m))
   \<and> (list_all isFinite (delays_waited serve random duration)
        \<and> delays_waited serve random duration \<noteq> [] \<longrightarrow>
        (\<Sum>m < attempts serve random duration - 1. duration m)
          + sum_list (map num_value (delays_waited serve random duration)) < 10000)
   \<and> ((\<forall>m \<le> 5. serve m = Throws (errs m) \<and> retryCondition (errs m))
        \<and> (\<forall>m < 5. retryDelay (Suc m) (errs m) (random m) = Num (xs m) \<and> 0 \<le> xs m \<and> 0 \<le> duration m)
        \<and> (\<Sum>m < 5. duration m + xs m) < 10000 \<longrightarrow>
        attempts serve random duration = 6 \<and> http_get serve random duration = serve 5)
   \<and> (retryCondition err \<longleftrightarrow>
        is_network_error err \<or> response_status err \<in> {Some 429, Some 500, Some 502, Some 503, Some 504})
   \<and> ((retry_after err = None \<or> retry_after err = Some []) \<and> 0 \<le> r \<and> r < 1 \<longrightarrow>
        (\<exists>d. retryDelay n err r = Num d \<and> d = r * min 32000 (1000 * 2 ^ n) \<and> 0 \<le> d \<and> d < 32000))
   \<and> (retry_after err = Some h \<and> h \<noteq> [] \<longrightarrow>
        retryDelay n err r = js_times (parseFloat h) (Num 1000))"
proof -
  obtain res ds where rr: "request_with_retry serve random duration (Num TIMEOUT) 0 = (res, ds)"
    by (cases "request_with_retry serve random duration (Num TIMEOUT) 0")
  note run = request_with_retry_run [OF rr]
  have dw: "delays_waited serve random duration = ds"
    and at: "attempts serve random duration = Suc (length ds)"
    and hg: "http_get serve random duration = res"
    by (simp_all add: attempts_def delays_waited_def http_get_def rr)
  have a: "attempts serve random duration \<le> 6" using run by (simp add: at RETRIES_def)
  have b: "http_get serve random duration = serve (attempts serve random duration - 1)"
    using run by (simp add: at hg)
  have c: "\<forall>m < attempts serve random duration - 1.
         \<exists>e. serve m = Throws e \<and> retryCondition e
           \<and> delays_waited serve random duration ! m = retryDelay (Suc m) e (random m)"
    using run by (simp add: at dw)
  have d: "list_all isFinite (delays_waited serve random duration)
        \<and> delays_waited serve random duration \<noteq> [] \<longrightarrow>
        (\<Sum>m < attempts serve random duration - 1. duration m)
          + sum_list (map num_value (delays_waited serve random duration)) < 10000"
  proof
    assume f: "list_all isFinite (delays_waited serve random duration)
        \<and> delays_waited serve random duration \<noteq> []"
    have "(0::real) < TIMEOUT" by (simp add: TIMEOUT_def)
    from request_with_retry_budget [OF rr this] f
    show "(\<Sum>m < attempts serve random duration - 1. duration m)
          + sum_list (map num_value (delays_waited serve random duration)) < 10000"
      by (simp add: dw at TIMEOUT_def)
  qed
  have e: "(\<forall>m \<le> 5. serve m = Throws (errs m) \<and> retryCondition (errs m))
        \<and> (\<forall>m < 5. retryDelay (Suc m) (errs m) (random m) = Num (xs m) \<and> 0 \<le> xs m \<and> 0 \<le> duration m)
        \<and> (\<Sum>m < 5. duration m + xs m) < 10000 \<longrightarrow>
        attempts serve random duration = 6 \<and> http_get serve random duration = serve 5"
  proof
    assume h: "(\<forall>m \<le> 5. serve m = Throws (errs m) \<and> retryCondition (errs m))
        \<and> (\<forall>m < 5. retryDelay (Suc m) (errs m) (random m) = Num (xs m) \<and> 0 \<le> xs m \<and> 0 \<le> duration m)
        \<and> (\<Sum>m < 5. duration m + xs m) < 10000"
    then have h1: "\<forall>m. 0 \<le> m \<and> m \<le> 5 \<longrightarrow> serve m = Throws (errs m) \<and> retryCondition (errs m)"
      and h2: "\<forall>m. 0 \<le> m \<and> m < 5 \<longrightarrow> retryDelay (Suc m) (errs m) (random m) = Num (xs m) \<and> 0 \<le> xs m \<and> 0 \<le> duration m"
      and h3: "(\<Sum>m = 0..<5. duration m + xs m) < TIMEOUT"
      by (simp_all add: TIMEOUT_def lessThan_atLeast0)
    from request_with_retry_all [OF h1 h2 h3] rr have "res = serve 5" "ds = map (\<lambda>m. Num (xs m)) [0..<5]"
      by simp_all
    then show "attempts serve random duration = 6 \<and> http_get serve random duration = serve 5"
      by (simp add: at hg)
  qed
  have f: "retry_after err = Some h \<and> h \<noteq> [] \<longrightarrow>
        retryDelay n err r = js_times (parseFloat h) (Num 1000)"
    by (simp add: retryDelay_def)
  from a b c d e retryCondition_iff [of err] retryDelay_jitter [of err r n] f
  show ?thesis by blast
qed

theorem retry_policy_witness:
  "attempts always500 eighth fifty_ms = 6 \<and> http_get always500 eighth fifty_ms = Throws err500
   \<and> delays_waited always500 eighth fifty_ms = [Num 250, Num 500, Num 1000, Num 2000, Num 4000]
   \<and> retryCondition err500 \<and> retryDelay 3 err500 (1 / 8) = Num 1000
   \<and> retryDelay 1 err429 (1 / 8) = Num 2000
   \<and> attempts always500 half fifty_ms = 4 \<and> attempts always429 half fifty_ms = 5"
proof -
  define xs :: "nat \<Rightarrow> real" where "xs = (\<lambda>m. 1 / 8 * min 32000 (1000 * 2 ^ Suc m))"
  have c: "retryCondition err500" by (simp add: retryCondition_def err500_def Error_def)
  have h1: "\<forall>m \<le> 5. always500 m = Throws err500 \<and> retryCondition err500"
    using c by (simp add: always500_def)
  have h2: "\<forall>m < 5. retryDelay (Suc m) err500 (eighth m) = Num (xs m) \<and> 0 \<le> xs m \<and> 0 \<le> fifty_ms m"
    by (simp add: retryDelay_def err500_def Error_def eighth_def xs_def fifty_ms_def)
  have x: "xs 0 = 250" "xs (Suc 0) = 500" "xs (Suc (Suc 0)) = 1000" "xs (Suc (Suc (Suc 0))) = 2000"
    "xs (Suc (Suc (Suc (Suc 0)))) = 4000"
    by (simp_all add: xs_def)
  have h3: "(\<Sum>m < 5. fifty_ms m + xs m) < 10000"
    by (simp add: eval_nat_numeral x fifty_ms_def)
  have ra: "retry_after err500 = None \<or> retry_after err500 = Some []"
    by (simp add: err500_def Error_def)
  have rb: "retry_after err429 = Some ''2'' \<and> ''2'' \<noteq> []"
    by (simp add: err429_def Error_def)
  have pf: "parseFloat ''2'' = Num 2" by code_simp
  have r: "(0::real) \<le> 1 / 8 \<and> (1::real) / 8 < 1" by simp
  note w3 = retry_policy [of always500 eighth fifty_ms "\<lambda>m. err500" xs err500 "1 / 8" 3 "''2''"]
  note w1 = retry_policy [of always500 eighth fifty_ms "\<lambda>m. err500" xs err429 "1 / 8" 1 "''2''"]
  from w3 h1 h2 h3 have a: "attempts always500 eighth fifty_ms = 6
      \<and> http_get always500 eighth fifty_ms = always500 5"
    by blast
  from w3 ra r have d3: "retryDelay 3 err500 (1 / 8) = Num 1000" by auto
  from w1 rb pf have d1: "retryDelay 1 err429 (1 / 8) = Num 2000" by auto
  have dl: "delays_waited always500 eighth fifty_ms = [Num 250, Num 500, Num 1000, Num 2000, Num 4000]"
    by code_simp
  have cut: "attempts always500 half fifty_ms = 4" "attempts always429 half fifty_ms = 5"
    by code_simp+
  from a c d3 d1 dl cut show ?thesis by (simp add: always500_def)
qed

text \<open>
  The claim as first stated fails twice: against an upstream that always answers 500
  within 50 ms, with every random draw 1/8 (delays of 250, 500, 1000, 2000 and 4000 ms),
  six requests are sent, not five; and a 501, which is a 5xx, is not retried.
\<close>

theorem retry_policy_six_attempts_and_501:
  "attempts always500 eighth fifty_ms = 6 \<and> \<not> attempts always500 eighth fifty_ms \<le> 5
   \<and> response_status err501 = Some 501 \<and> \<not> retryCondition err501
   \<and> attempts (\<lambda>n. Throws err501 :: current_weather option outcome) eighth fifty_ms = 1"
  by code_simp

subsection \<open>The worker loop\<close>

lemma on_error_events:
  "EvAcquire \<notin> set (on_error err) \<and> EvBucketOk \<notin> set (on_error err)
   \<and> (\<forall>l. EvFetch l \<notin> set (on_error err)) \<and> (\<forall>f. EvXadd f \<notin> set (on_error err))"
  by (simp add: on_error_def)

text \<open>
  Claim C7, as amended. In every round of a worker's loop the token acquire has returned
  before the upstream fetch is called, and the success counter of the second-bucket is
  incremented after the fetch has returned and before the entry is appended to the
  stream: whenever an entry is appended, the increment came first, and the append does
  not come before it.
\<close>

theorem worker_round_order:
  "(EvFetch l \<in> set (runWorker_round item JSON_parse fetch String) \<longrightarrow>
      before EvAcquire (EvFetch l) (runWorker_round item JSON_parse fetch String))
   \<and> (EvXadd f \<in> set (runWorker_round item JSON_parse fetch String) \<longrightarrow>
      before EvBucketOk (EvXadd f) (runWorker_round item JSON_parse fetch String)
      \<and> \<not> before (EvXadd f) EvBucketOk (runWorker_round item JSON_parse fetch String))
   \<and> (EvBucketOk \<in> set (runWorker_round item JSON_parse fetch String) \<longrightarrow>
      (\<exists>l r. fetch l = Returns r \<and> before (EvFetch l) EvBucketOk (runWorker_round item JSON_parse fetch String)
         \<and> EvXadd (stream_fields String r) \<in> set (runWorker_round item JSON_parse fetch String)))"
proof (cases item)
  case None
  then show ?thesis by (simp add: runWorker_round_def)
next
  case (Some kp)
  obtain key payload where kp: "kp = (key, payload)" by (cases kp)
  show ?thesis
  proof (cases "JSON_parse payload")
    case (Throws err)
    with Some kp on_error_events [of err] show ?thesis
      by (simp add: runWorker_round_def)
  next
    case (Returns location)
    show ?thesis
    proof (cases "fetch location")
      case (Throws err)
      with Some kp Returns on_error_events [of err] show ?thesis
        by (auto simp: runWorker_round_def before_def)
    next
      case r: (Returns result)
      have tr: "runWorker_round item JSON_parse fetch String =
          [EvBrpop, EvMget, EvAcquire, EvFetch location, EvBucketOk, EvLatency,
           EvXadd (stream_fields String result), EvLogOk]"
        using Some kp Returns r by (simp add: runWorker_round_def)
      show ?thesis
        unfolding tr using r by (auto simp: before_def)
    qed
  qed
qed

theorem worker_round_order_witness:
  "runWorker_round (Some (''weather:locations:queue'', ''{}'')) parse_oslo fetch_oslo String_stub
     = [EvBrpop, EvMget, EvAcquire, EvFetch oslo, EvBucketOk, EvLatency, EvXadd oslo_fields, EvLogOk]
   \<and> before EvAcquire (EvFetch oslo)
        (runWorker_round (Some (''weather:locations:queue'', ''{}'')) parse_oslo fetch_oslo String_stub)
   \<and> before EvBucketOk (EvXadd oslo_fields)
        (runWorker_round (Some (''weather:locations:queue'', ''{}'')) parse_oslo fetch_oslo String_stub)
   \<and> before (EvFetch oslo) EvBucketOk
        (runWorker_round (Some (''weather:locations:queue'', ''{}'')) parse_oslo fetch_oslo String_stub)"
proof -
  have tr: "runWorker_round (Some (''weather:locations:queue'', ''{}'')) parse_oslo fetch_oslo String_stub
     = [EvBrpop, EvMget, EvAcquire, EvFetch oslo, EvBucketOk, EvLatency, EvXadd oslo_fields, EvLogOk]"
    by (simp add: runWorker_round_def parse_oslo_def fetch_oslo_def stream_fields_def oslo_payload_def
        String_stub_def oslo_fields_def)
  have m: "EvFetch oslo \<in> set (runWorker_round (Some (''weather:locations:queue'', ''{}'')) parse_oslo fetch_oslo String_stub)"
    "EvXadd oslo_fields \<in> set (runWorker_round (Some (''weather:locations:queue'', ''{}'')) parse_oslo fetch_oslo String_stub)"
    by (simp_all add: tr)
  have b: "before (EvFetch oslo) EvBucketOk
        (runWorker_round (Some (''weather:locations:queue'', ''{}'')) parse_oslo fetch_oslo String_stub)"
    by (simp add: tr before_def)
  from worker_round_order [of oslo "Some (''weather:locations:queue'', ''{}'')" parse_oslo fetch_oslo
      String_stub oslo_fields] m tr b
  show ?thesis by blast
qed

text \<open>
  The append does not precede the increment: in a round that succeeds, \<open>bucket.ok++\<close>
  is run first and \<open>xadd\<close> after it.
\<close>

theorem worker_counts_before_append:
  "runWorker_round (Some (''weather:locations:queue'', ''{}'')) parse_oslo fetch_oslo String_stub
     = [EvBrpop, EvMget, EvAcquire, EvFetch oslo, EvBucketOk, EvLatency, EvXadd oslo_fields, EvLogOk]
   \<and> \<not> before (EvXadd oslo_fields) EvBucketOk
        (runWorker_round (Some (''weather:locations:queue'', ''{}'')) parse_oslo fetch_oslo String_stub)
   \<and> before EvBucketOk (EvXadd oslo_fields)
        (runWorker_round (Some (''weather:locations:queue'', ''{}'')) parse_oslo fetch_oslo String_stub)"
  by (simp add: runWorker_round_def parse_oslo_def fetch_oslo_def stream_fields_def oslo_payload_def
        String_stub_def oslo_fields_def before_def)

subsection \<open>Digits and the calendar\<close>

lemma digit_val_digit_char: "n < 10 \<Longrightarrow> digit_val (digit_char n) = n"
  by (simp add: digit_val_def digit_char_def)

lemma nat_of_digits_snoc: "nat_of_digits (ds @ [c]) = 10 * nat_of_digits ds + digit_val c"
  by (simp add: nat_of_digits_def)

lemma is_digit_digit_char: "n < 10 \<Longrightarrow> is_digit (digit_char n)"
  by (simp add: is_digit_def digit_char_def)

lemma digit_char_not_sign:
  assumes "n < 10"
  shows "digit_char n \<noteq> CHR ''+''" and "digit_char n \<noteq> CHR ''-''"
proof -
  have d: "(of_char (digit_char n) :: nat) = 48 + n" using assms by (simp add: digit_char_def)
  show "digit_char n \<noteq> CHR ''+''"
  proof
    assume "digit_char n = CHR ''+''"
    then have "(of_char (digit_char n) :: nat) = of_char CHR ''+''" by simp
    with d show False by simp
  qed
  show "digit_char n \<noteq> CHR ''-''"
  proof
    assume "digit_char n = CHR ''-''"
    then have "(of_char (digit_char n) :: nat) = of_char CHR ''-''" by simp
    with d show False by simp
  qed
qed

lemma length_pad: "length (pad k n) = k"
  by (induction k arbitrary: n) simp_all

lemma digits_pad: "list_all is_digit (pad k n)"
  by (induction k arbitrary: n) (simp_all add: is_digit_digit_char)

lemma nat_of_digits_pad: "nat_of_digits (pad k n) = n mod 10 ^ k"
proof (induction k arbitrary: n)
  case 0
  show ?case by (simp add: nat_of_digits_def)
next
  case (Suc k)
  have "nat_of_digits (pad (Suc k) n) = 10 * (n div 10 mod 10 ^ k) + n mod 10"
    by (simp add: nat_of_digits_snoc Suc digit_val_digit_char)
  also have "\<dots> = n mod 10 ^ Suc k"
    by (simp add: mod_mult2_eq)
  finally show ?case .
qed

lemma parse_fixed_pad: "n < 10 ^ k \<Longrightarrow> parse_fixed k (pad k n @ rest) = Some (n, rest)"
  by (simp add: parse_fixed_def length_pad digits_pad nat_of_digits_pad)

lemma expect_Cons: "expect c (c # rest) = Some rest"
  by (simp add: expect_def)

lemma pad_starts_with_digit: "0 < k \<Longrightarrow> \<exists>m tl. m < 10 \<and> pad k n = digit_char m # tl"
proof (induction k arbitrary: n)
  case 0
  then show ?case by simp
next
  case (Suc k)
  show ?case
  proof (cases "k = 0")
    case True
    have "n mod 10 < 10 \<and> pad (Suc 0) n = digit_char (n mod 10) # []" by simp
    with True show ?thesis by blast
  next
    case False
    then have "0 < k" by simp
    from Suc.IH [OF this, of "n div 10"] obtain m tl where
      "m < 10" "pad k (n div 10) = digit_char m # tl" by blast
    then have "m < 10 \<and> pad (Suc k) n = digit_char m # (tl @ [digit_char (n mod 10)])" by simp
    then show ?thesis by blast
  qed
qed

lemma parse_year_string:
  assumes "- 999999 \<le> y" and "y \<le> 999999"
  shows "parse_year (year_string y @ rest) = Some (y, rest)"
proof (cases "0 \<le> y \<and> y \<le> 9999")
  case True
  then have n: "nat y < 10 ^ 4" by auto
  obtain m tl where m: "m < 10" and h: "pad 4 (nat y) = digit_char m # tl"
    using pad_starts_with_digit [of 4 "nat y"] by auto
  have ns: "digit_char m \<noteq> CHR ''+''" "digit_char m \<noteq> CHR ''-''"
    using m by (simp_all add: digit_char_not_sign)
  have "parse_year (pad 4 (nat y) @ rest) = map_option (\<lambda>(n, r'). (int n, r')) (parse_fixed 4 (pad 4 (nat y) @ rest))"
    using ns by (simp add: parse_year_def h)
  also have "\<dots> = Some (y, rest)"
    using True by (simp add: parse_fixed_pad [OF n])
  finally show ?thesis using True by (simp add: year_string_def)
next
  case False
  show ?thesis
  proof (cases "y < 0")
    case True
    with assms have n: "nat (- y) < 10 ^ 6" by auto
    have pf: "parse_fixed 6 (pad 6 (nat (- y)) @ rest) = Some (nat (- y), rest)"
      by (rule parse_fixed_pad [OF n])
    from True False have "year_string y @ rest = CHR ''-'' # pad 6 (nat (- y)) @ rest"
      by (simp add: year_string_def)
    then show ?thesis
      using True by (simp add: parse_year_def pf)
  next
    case pos: False
    with assms have n: "nat y < 10 ^ 6" by auto
    have pf: "parse_fixed 6 (pad 6 (nat y) @ rest) = Some (nat y, rest)"
      by (rule parse_fixed_pad [OF n])
    from pos False have "year_string y @ rest = CHR ''+'' # pad 6 (nat y) @ rest"
      by (simp add: year_string_def)
    then show ?thesis
      using pos by (simp add: parse_year_def pf)
  qed
qed

lemma step_div: "(c::int) > 0 \<Longrightarrow> (a + 1) div c = a div c + (if (a + 1) mod c = 0 then 1 else 0)"
proof -
  assume c: "c > 0"
  define r where "r = a mod c"
  define q where "q = a div c"
  have a: "a = c * q + r" by (simp add: q_def r_def)
  have r: "0 \<le> r" "r < c" using c by (simp_all add: r_def)
  show ?thesis
  proof (cases "r + 1 = c")
    case True
    then have "a + 1 = c * (q + 1)" using a by (simp add: algebra_simps)
    then have "(a + 1) div c = q + 1" "(a + 1) mod c = 0" using c by simp_all
    then show ?thesis by (simp add: q_def)
  next
    case False
    with r have r1: "0 \<le> r + 1" "r + 1 < c" by simp_all
    have e: "a + 1 = (r + 1) + q * c" using a by (simp add: algebra_simps)
    have "(a + 1) div c = q" "(a + 1) mod c = r + 1"
      unfolding e using r1 by (simp_all add: div_pos_pos_trivial mod_pos_pos_trivial)
    moreover from r have "r + 1 \<noteq> 0" by simp
    ultimately show ?thesis by (simp add: q_def)
  qed
qed

lemma mod_100_4: "((y::int) - 1900) mod 100 = 0 \<Longrightarrow> (y - 1968) mod 4 = 0"
  by presburger

lemma mod_400_100: "((y::int) - 1600) mod 400 = 0 \<Longrightarrow> (y - 1900) mod 100 = 0"
  by presburger

lemma InLeapYear_eq:
  "InLeapYear y = (if (y - 1968) mod 4 = 0 then 1 else 0) - (if (y - 1900) mod 100 = 0 then 1 else 0)
      + (if (y - 1600) mod 400 = 0 then 1 else 0)"
proof -
  have a: "(y + 1 - 1969) div 4 = (y - 1969) div 4 + (if (y - 1968) mod 4 = 0 then 1 else 0)"
    using step_div [of 4 "y - 1969"] by (simp add: algebra_simps)
  have b: "(y + 1 - 1901) div 100 = (y - 1901) div 100 + (if (y - 1900) mod 100 = 0 then 1 else 0)"
    using step_div [of 100 "y - 1901"] by (simp add: algebra_simps)
  have c: "(y + 1 - 1601) div 400 = (y - 1601) div 400 + (if (y - 1600) mod 400 = 0 then 1 else 0)"
    using step_div [of 400 "y - 1601"] by (simp add: algebra_simps)
  show ?thesis
    unfolding InLeapYear_def DayFromYear_def a b c by (simp split: if_splits)
qed

lemma InLeapYear_range: "InLeapYear y = 0 \<or> InLeapYear y = 1"
  using mod_100_4 [of y] mod_400_100 [of y] by (auto simp: InLeapYear_eq)

lemma DayFromYear_step: "DayFromYear y + 365 \<le> DayFromYear (y + 1)" "DayFromYear (y + 1) \<le> DayFromYear y + 366"
  using InLeapYear_range [of y] by (auto simp: InLeapYear_def)

lemma div_bounds:
  assumes "(c::int) > 0"
  shows "c * (x div c) \<le> x" and "x < c * (x div c) + c"
proof -
  have "x = c * (x div c) + x mod c" by simp
  moreover have "0 \<le> x mod c" "x mod c < c" using assms by simp_all
  ultimately show "c * (x div c) \<le> x" and "x < c * (x div c) + c" by linarith+
qed

lemma DayFromYear_linear:
  "400 * DayFromYear y \<le> 146097 * y - 287810497" "146097 * y - 287811697 < 400 * DayFromYear y"
proof -
  define q4 where "q4 = (y - 1969) div 4"
  define q100 where "q100 = (y - 1901) div 100"
  define q400 where "q400 = (y - 1601) div 400"
  have a: "4 * q4 \<le> y - 1969" "y - 1969 < 4 * q4 + 4"
    unfolding q4_def by (rule div_bounds, simp)+
  have b: "100 * q100 \<le> y - 1901" "y - 1901 < 100 * q100 + 100"
    unfolding q100_def by (rule div_bounds, simp)+
  have c: "400 * q400 \<le> y - 1601" "y - 1601 < 400 * q400 + 400"
    unfolding q400_def by (rule div_bounds, simp)+
  have d: "DayFromYear y = 365 * (y - 1970) + q4 - q100 + q400"
    by (simp add: DayFromYear_def q4_def q100_def q400_def)
  have e: "400 * DayFromYear y = 146000 * y - 287620000 + 400 * q4 - 400 * q100 + 400 * q400"
    unfolding d by (simp add: algebra_simps)
  show "400 * DayFromYear y \<le> 146097 * y - 287810497"
    unfolding e using a b c by linarith
  show "146097 * y - 287811697 < 400 * DayFromYear y"
    unfolding e using a b c by linarith
qed

lemma year_search_correct:
  "DayFromYear y \<le> d \<Longrightarrow> d - DayFromYear y \<le> int n \<Longrightarrow>
     DayFromYear (year_search n y d) \<le> d \<and> d < DayFromYear (year_search n y d + 1)"
proof (induction n arbitrary: y)
  case 0
  with DayFromYear_step(1) [of y] show ?case by simp
next
  case (Suc n)
  show ?case
  proof (cases "DayFromYear (y + 1) \<le> d")
    case True
    have "d - DayFromYear (y + 1) \<le> int n"
      using Suc.prems DayFromYear_step(1) [of y] by simp
    from Suc.IH [OF True this] True show ?thesis by simp
  next
    case False
    with Suc.prems show ?thesis by simp
  qed
qed

lemma year_estimate: "DayFromYear (1969 + (if d \<ge> 0 then d div 366 else d div 365)) \<le> d"
proof (cases "d \<ge> 0")
  case True
  define k where "k = d div 366"
  have k: "366 * k \<le> d" "d < 366 * k + 366" unfolding k_def by (rule div_bounds, simp)+
  with True have "0 \<le> k" by simp
  define D where "D = DayFromYear (1969 + k)"
  define Y where "Y = 1969 + k"
  have "400 * D \<le> 146097 * Y - 287810497"
    unfolding D_def Y_def by (rule DayFromYear_linear(1))
  with k \<open>0 \<le> k\<close> Y_def have "D \<le> d" by linarith
  with True show ?thesis by (simp add: k_def D_def)
next
  case False
  define k where "k = d div 365"
  have k: "365 * k \<le> d" "d < 365 * k + 365" unfolding k_def by (rule div_bounds, simp)+
  with False have "k < 0" by simp
  define D where "D = DayFromYear (1969 + k)"
  define Y where "Y = 1969 + k"
  have "400 * D \<le> 146097 * Y - 287810497"
    unfolding D_def Y_def by (rule DayFromYear_linear(1))
  with k \<open>k < 0\<close> Y_def have "D \<le> d" by linarith
  with False show ?thesis by (simp add: k_def D_def)
qed

lemma YearFromDay_correct:
  "DayFromYear (YearFromDay d) \<le> d \<and> d < DayFromYear (YearFromDay d + 1)"
proof -
  define y0 where "y0 = 1969 + (if d \<ge> 0 then d div 366 else d div 365)"
  have e: "DayFromYear y0 \<le> d" unfolding y0_def by (rule year_estimate)
  then have "d - DayFromYear y0 \<le> int (nat (d - DayFromYear y0))" by simp
  from year_search_correct [OF e this] show ?thesis
    by (simp add: YearFromDay_def y0_def [symmetric] Let_def)
qed

lemma YearFromDay_bounds:
  assumes "- 100000000 \<le> d" and "d \<le> 100000000"
  shows "- 271821 \<le> YearFromDay d" and "YearFromDay d \<le> 275760"
proof -
  define y where "y = YearFromDay d"
  have c: "DayFromYear y \<le> d" "d < DayFromYear (y + 1)"
    using YearFromDay_correct [of d] by (simp_all add: y_def)
  define D0 where "D0 = DayFromYear y"
  define D1 where "D1 = DayFromYear (y + 1)"
  define y1 where "y1 = y + 1"
  have l: "400 * D1 \<le> 146097 * y1 - 287810497" "146097 * y - 287811697 < 400 * D0"
    unfolding D0_def D1_def y1_def by (rule DayFromYear_linear)+
  from c have c': "D0 \<le> d" "d < D1" by (simp_all add: D0_def D1_def)
  show "- 271821 \<le> YearFromDay d"
    unfolding y_def [symmetric] using l c' assms y1_def by linarith
  show "YearFromDay d \<le> 275760"
    unfolding y_def [symmetric] using l c' assms by linarith
qed

lemma MonthFromDay_bounds:
  assumes "leap = 0 \<or> leap = 1" and "0 \<le> dwy" and "dwy < 365 + leap"
  shows "MonthFromDay leap dwy \<le> 11"
    and "month_start leap (MonthFromDay leap dwy) \<le> dwy"
    and "dwy - month_start leap (MonthFromDay leap dwy) < 31"
  using assms by (auto simp: MonthFromDay_def month_start_def)

lemma parse_iso_format:
  assumes "- 999999 \<le> y" "y \<le> 999999" "mo < 100" "dd < 100" "hh < 100" "mi < 100" "ss < 100" "ms < 1000"
  shows "parse_iso (year_string y @ ''-'' @ pad 2 mo @ ''-'' @ pad 2 dd @ ''T'' @ pad 2 hh @ '':''
           @ pad 2 mi @ '':'' @ pad 2 ss @ ''.'' @ pad 3 ms @ ''Z'') = Some (y, mo, dd, hh, mi, ss, ms)"
  using assms by (simp add: parse_iso_def parse_year_string parse_fixed_pad expect_Cons)

lemma time_fields:
  assumes "0 \<le> tod" and "tod < 86400000"
  shows "MakeTime (tod div 3600000) (tod div 60000 mod 60) (tod div 1000 mod 60) (tod mod 1000) = tod"
    and "0 \<le> tod div 3600000" and "tod div 3600000 < 24"
proof -
  define a where "a = tod div 1000"
  define b where "b = a div 60"
  define c where "c = b div 60"
  have b': "tod div 60000 = b"
    unfolding b_def a_def using zdiv_zmult2_eq [of 60 tod 1000] by simp
  have c': "tod div 3600000 = c"
    unfolding c_def b' [symmetric] using zdiv_zmult2_eq [of 60 tod 60000] by simp
  have 1: "tod = 1000 * a + tod mod 1000" by (simp add: a_def)
  have 2: "a = 60 * b + a mod 60" by (simp add: b_def)
  have 3: "b = 60 * c + b mod 60" by (simp add: c_def)
  have "MakeTime c (b mod 60) (a mod 60) (tod mod 1000) = tod"
    unfolding MakeTime_def using 1 2 3 by linarith
  then show "MakeTime (tod div 3600000) (tod div 60000 mod 60) (tod div 1000 mod 60) (tod mod 1000) = tod"
    by (simp add: b' c' a_def [symmetric])
  show "0 \<le> tod div 3600000" using assms(1) by (simp add: pos_imp_zdiv_nonneg_iff)
  have "3600000 * (tod div 3600000) \<le> tod" by (rule div_bounds, simp)
  with assms(2) show "tod div 3600000 < 24" by linarith
qed

lemma nat_below: "0 \<le> (x::int) \<Longrightarrow> x < int k \<Longrightarrow> nat x < k"
  by linarith

lemma Date_parse_iso_string:
  assumes "valid_time t"
  shows "Date_parse (iso_string t) = Num (real_of_int t)"
proof -
  define d where "d = Day t"
  define tod where "tod = TimeWithinDay t"
  define y where "y = YearFromDay d"
  define leap where "leap = InLeapYear y"
  define dwy where "dwy = d - DayFromYear y"
  define m where "m = MonthFromDay leap dwy"
  define date where "date = dwy - month_start leap m + 1"
  define hh where "hh = tod div 3600000"
  define mi where "mi = tod div 60000 mod 60"
  define ss where "ss = tod div 1000 mod 60"
  define ms where "ms = tod mod 1000"
  have td: "t = d * msPerDay + tod" by (simp add: d_def tod_def Day_def TimeWithinDay_def)
  have tod: "0 \<le> tod" "tod < 86400000" by (simp_all add: tod_def TimeWithinDay_def msPerDay_def)
  have db: "86400000 * d \<le> t" "t < 86400000 * d + 86400000"
    unfolding d_def Day_def msPerDay_def by (rule div_bounds, simp)+
  from assms have vt: "- 8640000000000000 \<le> t" "t \<le> 8640000000000000"
    by (simp_all add: valid_time_def)
  from db vt have dr: "- 100000000 \<le> d" "d \<le> 100000000" by linarith+
  from YearFromDay_bounds [OF dr] have yb: "- 999999 \<le> y" "y \<le> 999999" by (simp_all add: y_def)
  from YearFromDay_correct [of d] have yc: "DayFromYear y \<le> d" "d < DayFromYear (y + 1)"
    by (simp_all add: y_def)
  have lp: "leap = 0 \<or> leap = 1" unfolding leap_def by (rule InLeapYear_range)
  have dw: "0 \<le> dwy" "dwy < 365 + leap"
    using yc unfolding dwy_def leap_def InLeapYear_def by linarith+
  note mb = MonthFromDay_bounds [OF lp dw, folded m_def]
  have dt: "1 \<le> date" "date \<le> 31" using mb(2,3) unfolding date_def by linarith+
  note tf = time_fields [OF tod, folded hh_def mi_def ss_def ms_def]
  have r: "0 \<le> mi" "mi < 60" "0 \<le> ss" "ss < 60" "0 \<le> ms" "ms < 1000"
    by (simp_all add: mi_def ss_def ms_def)
  have f: "m + 1 < 100" "nat date < 100" "nat hh < 100" "nat mi < 100"
    "nat ss < 100" "nat ms < 1000"
    using mb(1) dt tf(2,3) r by linarith+
  have iso: "iso_string t = year_string y @ ''-'' @ pad 2 (m + 1) @ ''-'' @ pad 2 (nat date) @ ''T''
         @ pad 2 (nat hh) @ '':'' @ pad 2 (nat mi) @ '':''
         @ pad 2 (nat ss) @ ''.'' @ pad 3 (nat ms) @ ''Z''"
    unfolding iso_string_def Let_def date_def m_def dwy_def leap_def y_def tod_def d_def
      hh_def mi_def ss_def ms_def
    by (rule refl)
  have p: "parse_iso (iso_string t) = Some (y, m + 1, nat date, nat hh, nat mi, nat ss, nat ms)"
    unfolding iso by (rule parse_iso_format [OF yb f])
  have i: "int (nat date) = date" "int (nat hh) = hh" "int (nat mi) = mi" "int (nat ss) = ss"
    "int (nat ms) = ms"
    using dt tf(2) r by linarith+
  have md: "MakeDay y (m + 1 - 1) (int (nat date)) = d"
    unfolding i MakeDay_def leap_def [symmetric] by (simp add: date_def dwy_def)
  have mt: "MakeTime (int (nat hh)) (int (nat mi)) (int (nat ss)) (int (nat ms)) = tod"
    unfolding i by (rule tf(1))
  have v: "1 \<le> m + 1" "m + 1 \<le> 12" "1 \<le> nat date" "nat date \<le> 31" "nat hh \<le> 24" "nat hh \<noteq> 24"
    "nat mi \<le> 59" "nat ss \<le> 59"
    using mb(1) dt tf(2,3) r by linarith+
  have mk: "MakeDate (MakeDay y (m + 1 - 1) (int (nat date)))
      (MakeTime (int (nat hh)) (int (nat mi)) (int (nat ss)) (int (nat ms))) = t"
    unfolding md mt MakeDate_def td by (rule refl)
  show ?thesis
    unfolding Date_parse_def p using v assms
    by (simp only: option.case prod.case mk Let_def simp_thms if_True if_False)
qed

subsection \<open>The stored point\<close>

lemma InfluxWriter_write_point:
  "InfluxWriter_write pt =
     (if isFinite (temperature pt) \<and> isFinite (latitude pt) \<and> isFinite (longitude pt)
      then Inr \<lparr>point_measurement = ''weather'',
                point_tags = [(''city_name'', city_name pt), (''weather_condition'', weather_condition pt)],
                point_fields = [(''temperature'', temperature pt), (''latitude'', latitude pt),
                                (''longitude'', longitude pt)],
                point_timestamp = Some (Date_parse (recorded_at pt))\<rparr>
      else if \<not> isFinite (temperature pt) then Inl ''invalid float value for field temperature''
      else if \<not> isFinite (latitude pt) then Inl ''invalid float value for field latitude''
      else Inl ''invalid float value for field longitude'')"
  by (simp add: InfluxWriter_write_def floatField_def tag_def new_Point_def timestamp_def)

lemma fetchWeather_real:
  "fetchWeather False env (Returns (Some R)) L =
     (if valid_time (cw_time R * 1000)
      then Returns \<lparr> city_name = city_name L, latitude = latitude L, longitude = longitude L,
                     temperature = cw_temperature R,
                     weather_condition =
                       (case map_of WMO_CODES (cw_weathercode R) of
                          Some description \<Rightarrow> description
                        | None \<Rightarrow> ''WMO-'' @ show_int (cw_weathercode R)),
                     recorded_at = iso_string (cw_time R * 1000) \<rparr>
      else Throws (Error ''RangeError: Invalid time value''))"
  by (simp add: fetchWeather_def toISOString_def)

text \<open>
  Claim C6. For a location \<open>L\<close> and a successful upstream response \<open>R\<close>, the point
  that \<open>InfluxWriter.write\<close> builds from the payload of \<open>fetchWeather\<close> has the tag
  \<open>city_name\<close> of \<open>L\<close>, the tag \<open>weather_condition\<close> that the table gives for the
  weather code of \<open>R\<close>, or \<open>WMO-\<close> followed by the code when the table has none, the
  fields \<open>latitude\<close> and \<open>longitude\<close> of \<open>L\<close> and \<open>temperature\<close> of \<open>R\<close>, and
  the time of \<open>R\<close> times 1000 as its timestamp in milliseconds. A point is built
  exactly when that time is a valid time value and the three numbers are finite.
\<close>

theorem fetch_then_write_point:
  "(case fetchWeather False env (Returns (Some R)) L of
      Throws err \<Rightarrow> \<not> valid_time (cw_time R * 1000)
    | Returns payload \<Rightarrow>
        valid_time (cw_time R * 1000)
        \<and> (case InfluxWriter_write payload of
             Inl msg \<Rightarrow> \<not> (isFinite (cw_temperature R) \<and> isFinite (latitude L) \<and> isFinite (longitude L))
           | Inr p \<Rightarrow>
               isFinite (cw_temperature R) \<and> isFinite (latitude L) \<and> isFinite (longitude L)
               \<and> point_measurement p = ''weather''
               \<and> point_tags p =
                   [(''city_name'', city_name L),
                    (''weather_condition'',
                     case map_of WMO_CODES (cw_weathercode R) of
                       Some description \<Rightarrow> description
                     | None \<Rightarrow> ''WMO-'' @ show_int (cw_weathercode R))]
               \<and> point_fields p =
                   [(''temperature'', cw_temperature R), (''latitude'', latitude L),
                    (''longitude'', longitude L)]
               \<and> point_timestamp p = Some (Num (real_of_int (cw_time R * 1000)))))"
proof (cases "valid_time (cw_time R * 1000)")
  case False
  then show ?thesis by (simp add: fetchWeather_real)
next
  case True
  note rt = Date_parse_iso_string [OF True]
  show ?thesis
    unfolding fetchWeather_real InfluxWriter_write_point using True
    by (simp add: rt)
qed

theorem fetch_then_write_point_witness:
  "(case fetchWeather False env0 (Returns (Some overcast_oslo)) oslo of
      Throws err \<Rightarrow> False
    | Returns payload \<Rightarrow>
        recorded_at payload = ''2023-11-14T22:13:20.000Z''
        \<and> (case InfluxWriter_write payload of
             Inl msg \<Rightarrow> False
           | Inr p \<Rightarrow>
               point_tags p = [(''city_name'', ''Oslo''), (''weather_condition'', ''Overcast'')]
               \<and> point_fields p = [(''temperature'', Num 3), (''latitude'', Num (5991 / 100)),
                                    (''longitude'', Num (1075 / 100))]
               \<and> point_timestamp p = Some (Num 1700000000000)))
   \<and> (case fetchWeather False env0 (Returns (Some unlisted_oslo)) oslo of
      Throws err \<Rightarrow> False
    | Returns payload \<Rightarrow> weather_condition payload = ''WMO-4'')"
proof -
  have v: "valid_time (cw_time overcast_oslo * 1000)" "valid_time (cw_time unlisted_oslo * 1000)"
    by (simp_all add: valid_time_def overcast_oslo_def unlisted_oslo_def)
  have i: "iso_string 1700000000000 = ''2023-11-14T22:13:20.000Z''" by code_simp
  have w: "map_of WMO_CODES 3 = Some ''Overcast''" "map_of WMO_CODES 4 = None"
    "show_int 4 = ''4''"
    by code_simp+
  have f: "isFinite (Num 3)" "isFinite (latitude oslo)" "isFinite (longitude oslo)"
    by (simp_all add: isFinite_def oslo_def)
  have 2: "(case fetchWeather False env0 (Returns (Some unlisted_oslo)) oslo of
      Throws err \<Rightarrow> False
    | Returns payload \<Rightarrow> weather_condition payload = ''WMO-4'')"
    unfolding fetchWeather_real using v(2) by (simp add: unlisted_oslo_def w)
  from fetch_then_write_point [where env = env0 and R = overcast_oslo and L = oslo] v(1) f
  have 1: "(case fetchWeather False env0 (Returns (Some overcast_oslo)) oslo of
      Throws err \<Rightarrow> False
    | Returns payload \<Rightarrow>
        recorded_at payload = ''2023-11-14T22:13:20.000Z''
        \<and> (case InfluxWriter_write payload of
             Inl msg \<Rightarrow> False
           | Inr p \<Rightarrow>
               point_tags p = [(''city_name'', ''Oslo''), (''weather_condition'', ''Overcast'')]
               \<and> point_fields p = [(''temperature'', Num 3), (''latitude'', Num (5991 / 100)),
                                    (''longitude'', Num (1075 / 100))]
               \<and> point_timestamp p = Some (Num 1700000000000)))"
    unfolding fetchWeather_real
    by (simp add: overcast_oslo_def oslo_def w i split: sum.splits)
  from 1 2 show ?thesis by (rule conjI)
qed

subsection \<open>The observation time\<close>

lemma recorded_at_stream:
  "recorded_at (parseMessage now ident (stream_fields String p)) = recorded_at p"
  by (simp add: parseMessage_def stream_fields_def property_def nullish_def)

text \<open>
  Claim C9, as amended. On the real fetch path \<open>recorded_at\<close> is the observation time
  the upstream reported (its seconds times 1000, as an ISO string), and \<open>Date.parse\<close>
  reads exactly that time back from it. On the mock path there is no upstream time:
  \<open>recorded_at\<close> is the clock at the moment the payload is made. On both paths the
  string goes through the stream unchanged, and the timestamp of the stored point is
  \<open>Date.parse\<close> of it.
\<close>

theorem recorded_at_source:
  "(fetchWeather False env (Returns (Some R)) L = Returns p \<longrightarrow>
      valid_time (cw_time R * 1000)
      \<and> recorded_at p = iso_string (cw_time R * 1000)
      \<and> Date_parse (recorded_at p) = Num (real_of_int (cw_time R * 1000)))
   \<and> (valid_time (mock_now env) \<longrightarrow>
        (\<exists>q. fetchWeather True env http L = Returns q
           \<and> recorded_at q = iso_string (mock_now env)
           \<and> Date_parse (recorded_at q) = Num (real_of_int (mock_now env))))
   \<and> recorded_at (parseMessage now ident (stream_fields String p)) = recorded_at p
   \<and> (InfluxWriter_write (parseMessage now ident (stream_fields String p)) = Inr pt \<longrightarrow>
        point_timestamp pt = Some (Date_parse (recorded_at p)))"
proof -
  have a: "fetchWeather False env (Returns (Some R)) L = Returns p \<longrightarrow>
      valid_time (cw_time R * 1000)
      \<and> recorded_at p = iso_string (cw_time R * 1000)
      \<and> Date_parse (recorded_at p) = Num (real_of_int (cw_time R * 1000))"
  proof (cases "valid_time (cw_time R * 1000)")
    case False
    then show ?thesis by (simp add: fetchWeather_real)
  next
    case True
    note rt = Date_parse_iso_string [OF True]
    show ?thesis
      unfolding fetchWeather_real using True rt by auto
  qed
  have b: "valid_time (mock_now env) \<longrightarrow>
        (\<exists>q. fetchWeather True env http L = Returns q
           \<and> recorded_at q = iso_string (mock_now env)
           \<and> Date_parse (recorded_at q) = Num (real_of_int (mock_now env)))"
    by (simp add: fetchWeather_def mockFetchWeather_def Date_parse_iso_string)
  have d: "InfluxWriter_write (parseMessage now ident (stream_fields String p)) = Inr pt \<longrightarrow>
        point_timestamp pt = Some (Date_parse (recorded_at p))"
    unfolding InfluxWriter_write_point recorded_at_stream
    by (auto split: if_splits)
  from a b recorded_at_stream d show ?thesis by blast
qed

theorem recorded_at_source_witness:
  "(case fetchWeather False env0 (Returns (Some overcast_oslo)) oslo of
      Throws err \<Rightarrow> False
    | Returns p \<Rightarrow>
        recorded_at p = ''2023-11-14T22:13:20.000Z''
        \<and> Date_parse (recorded_at p) = Num 1700000000000
        \<and> recorded_at (parseMessage 1700000600123 ''1-0'' (stream_fields String_stub p))
            = ''2023-11-14T22:13:20.000Z'')
   \<and> valid_time (mock_now env0)
   \<and> (case fetchWeather True env0 (Returns (Some overcast_oslo)) oslo of
      Throws err \<Rightarrow> False
    | Returns q \<Rightarrow> Date_parse (recorded_at q) = Num 1700000600123)"
proof -
  have v: "valid_time (cw_time overcast_oslo * 1000)" "valid_time (mock_now env0)"
    by (simp_all add: valid_time_def overcast_oslo_def env0_def)
  have i: "iso_string 1700000000000 = ''2023-11-14T22:13:20.000Z''" by code_simp
  obtain p where p: "fetchWeather False env0 (Returns (Some overcast_oslo)) oslo = Returns p"
    using v(1) by (simp add: fetchWeather_real)
  note t = recorded_at_source [where env = env0 and R = overcast_oslo and L = oslo and p = p
      and http = "Returns (Some overcast_oslo)" and now = 1700000600123 and ident = "''1-0''"
      and String = String_stub]
  note a = t [THEN conjunct1, rule_format, OF p]
  have c: "cw_time overcast_oslo * 1000 = 1700000000000" by (simp add: overcast_oslo_def)
  from a [THEN conjunct2, THEN conjunct1] have 1: "recorded_at p = ''2023-11-14T22:13:20.000Z''"
    unfolding c i .
  from a [THEN conjunct2, THEN conjunct2] have 2: "Date_parse (recorded_at p) = Num 1700000000000"
    unfolding c by simp
  from t [THEN conjunct2, THEN conjunct2, THEN conjunct1]
  have 3: "recorded_at (parseMessage 1700000600123 ''1-0'' (stream_fields String_stub p))
      = ''2023-11-14T22:13:20.000Z''"
    unfolding 1 .
  from t [THEN conjunct2, THEN conjunct1] v(2) obtain q where q: "fetchWeather True env0 (Returns (Some overcast_oslo)) oslo = Returns q"
    "Date_parse (recorded_at q) = Num (real_of_int (mock_now env0))"
    by blast
  have 4: "Date_parse (recorded_at q) = Num 1700000600123"
    using q(2) by (simp add: env0_def)
  show ?thesis
    unfolding p q(1) outcome.case using 1 2 3 4 v(2) by simp
qed

text \<open>
  With the mock enabled \<open>recorded_at\<close> is the time of the call, not an observation time
  of the upstream: here the clock reads 600.123 seconds after the time the upstream
  would report.
\<close>

theorem mock_recorded_at_is_ingestion_time:
  "mock_now env0 = 1700000600123
   \<and> cw_time overcast_oslo * 1000 = 1700000000000
   \<and> (case fetchWeather True env0 (Returns (Some overcast_oslo)) oslo of
        Throws err \<Rightarrow> False
      | Returns q \<Rightarrow>
          recorded_at q = ''2023-11-14T22:23:20.123Z''
          \<and> Date_parse (recorded_at q) = Num 1700000600123
          \<and> Date_parse (recorded_at q) \<noteq> Num 1700000000000)"
  by code_simp

subsection \<open>The scheduler\<close>

lemma digit_char_not_minus:
  assumes "n < 10"
  shows "digit_char n \<noteq> CHR ''-''"
proof
  have d: "(of_char (digit_char n) :: nat) = 48 + n" using assms by (simp add: digit_char_def)
  assume "digit_char n = CHR ''-''"
  then have "(of_char (digit_char n) :: nat) = of_char CHR ''-''" by simp
  with d show False by simp
qed

declare show_nat.simps [simp del]

lemma nat_of_digits_show_nat: "nat_of_digits (show_nat n) = n"
proof (induction n rule: show_nat.induct)
  case (1 n)
  show ?case
  proof (cases "n < 10")
    case True
    then show ?thesis
      by (simp add: show_nat.simps [of n] nat_of_digits_def digit_val_digit_char)
  next
    case False
    with 1 have "nat_of_digits (show_nat (n div 10)) = n div 10" by simp
    with False show ?thesis
      by (simp add: show_nat.simps [of n] nat_of_digits_snoc digit_val_digit_char)
  qed
qed

lemma show_nat_head: "\<exists>m tl. m < 10 \<and> show_nat n = digit_char m # tl"
proof (induction n rule: show_nat.induct)
  case (1 n)
  show ?case
  proof (cases "n < 10")
    case True
    then have "n < 10 \<and> show_nat n = digit_char n # []" by (simp add: show_nat.simps [of n])
    then show ?thesis by blast
  next
    case False
    with 1 obtain m tl where "m < 10" "show_nat (n div 10) = digit_char m # tl" by blast
    with False have "m < 10 \<and> show_nat n = digit_char m # (tl @ [digit_char (n mod 10)])"
      by (simp add: show_nat.simps [of n])
    then show ?thesis by blast
  qed
qed

lemma int_of_string_show_int:
  assumes "- (2 ^ 63) \<le> n" and "n < 2 ^ 63"
  shows "int_of_string (show_int n) = Some n"
proof (cases "n < 0")
  case True
  obtain m tl where m: "m < 10" "show_nat (nat (- n)) = digit_char m # tl"
    using show_nat_head by blast
  have "nat_of_digits (show_nat (nat (- n))) = nat (- n)" by (rule nat_of_digits_show_nat)
  with True assms show ?thesis
    by (simp add: int_of_string_def show_int_def)
next
  case False
  obtain m tl where m: "m < 10" "show_nat (nat n) = digit_char m # tl"
    using show_nat_head by blast
  have v: "nat_of_digits (show_nat (nat n)) = nat n" by (rule nat_of_digits_show_nat)
  have s: "show_int n = digit_char m # tl" using False m by (simp add: show_int_def)
  have "int_of_string (digit_char m # tl) = Some n"
    using False assms v m digit_char_not_minus [OF m(1)] s
    by (simp add: int_of_string_def)
  with s show ?thesis by simp
qed

lemma int_of_string_range: "int_of_string s = Some n \<Longrightarrow> - (2 ^ 63) \<le> n \<and> n < 2 ^ 63"
  by (auto simp: int_of_string_def Let_def split: list.splits if_splits)

lemma keys_distinct:
  "QUEUE_KEY \<noteq> CYCLE_KEY" "QUEUE_KEY \<noteq> CYCLE_START" "CYCLE_KEY \<noteq> CYCLE_START"
  by (simp_all add: QUEUE_KEY_def CYCLE_KEY_def CYCLE_START_def)

lemma pipeline_exec_Cons:
  "snd (pipeline_exec (c # cs) ks) = snd (pipeline_exec cs (snd (exec_command c ks)))"
  by (simp split: prod.splits)

lemma pipeline_exec_pushes:
  assumes "\<forall>s. ks key \<noteq> Some (RString s)"
  shows "snd (pipeline_exec (map (\<lambda>loc. LPUSH key (stringify loc)) locs) ks) =
     (if locs = [] then ks
      else ks(key \<mapsto> RList (rev (map stringify locs) @ (case ks key of Some (RList xs) \<Rightarrow> xs | _ \<Rightarrow> []))))"
  using assms
proof (induction locs arbitrary: ks)
  case Nil
  show ?case by simp
next
  case (Cons l locs)
  define old where "old = (case ks key of Some (RList xs) \<Rightarrow> xs | _ \<Rightarrow> [])"
  define ks1 where "ks1 = ks(key \<mapsto> RList (stringify l # old))"
  have e: "snd (exec_command (LPUSH key (stringify l)) ks) = ks1"
    using Cons.prems by (auto simp: ks1_def old_def split: option.splits rvalue.splits)
  have k1: "ks1 key = Some (RList (stringify l # old))" by (simp add: ks1_def)
  then have "\<forall>s. ks1 key \<noteq> Some (RString s)" by simp
  note Cons.IH [of ks1, OF this]
  then have ih: "snd (pipeline_exec (map (\<lambda>loc. LPUSH key (stringify loc)) locs) ks1) =
     (if locs = [] then ks1 else ks1(key \<mapsto> RList (rev (map stringify locs) @ stringify l # old)))"
    by (simp only: k1 option.case rvalue.case)
  have "snd (pipeline_exec (map (\<lambda>loc. LPUSH key (stringify loc)) (l # locs)) ks) =
      snd (pipeline_exec (map (\<lambda>loc. LPUSH key (stringify loc)) locs) ks1)"
    by (simp only: list.map pipeline_exec_Cons e)
  also have "\<dots> = ks(key \<mapsto> RList (rev (map stringify (l # locs)) @ old))"
    unfolding ih by (simp add: ks1_def)
  finally show ?case by (simp add: old_def)
qed

lemma INCR_cases:
  "(\<exists>n. cycle_counter ks = Some n \<and> n \<noteq> 2 ^ 63 - 1
        \<and> INCR CYCLE_KEY ks = (RInteger (n + 1), ks(CYCLE_KEY \<mapsto> RString (show_int (n + 1)))))
   \<or> ((cycle_counter ks = None \<or> cycle_counter ks = Some (2 ^ 63 - 1))
        \<and> (\<exists>e. INCR CYCLE_KEY ks = (RError e, ks)))"
  by (auto simp: cycle_counter_def INCR_def split: option.splits rvalue.splits)

lemma enqueueLocations_Inr:
  assumes c: "cycle_counter ks = Some n" and n: "n \<noteq> 2 ^ 63 - 1"
  shows "\<exists>res. enqueueLocations stringify ALL_LOCATIONS now ks = Inr res
     \<and> cycleId res = n + 1
     \<and> batch res = SET CYCLE_START (show_int now) # DEL QUEUE_KEY
          # map (\<lambda>loc. LPUSH QUEUE_KEY (stringify loc)) ALL_LOCATIONS
     \<and> (replies res, keys_after res) = pipeline_exec (batch res) (snd (INCR CYCLE_KEY ks))
     \<and> keys_after res =
         (if ALL_LOCATIONS = []
          then (ks(CYCLE_KEY \<mapsto> RString (show_int (n + 1)), CYCLE_START \<mapsto> RString (show_int now)))
                 (QUEUE_KEY := None)
          else (ks(CYCLE_KEY \<mapsto> RString (show_int (n + 1)), CYCLE_START \<mapsto> RString (show_int now)))
                 (QUEUE_KEY \<mapsto> RList (rev (map stringify ALL_LOCATIONS))))"
proof -
  define ks1 where "ks1 = ks(CYCLE_KEY \<mapsto> RString (show_int (n + 1)))"
  define ks3 where "ks3 = (ks1(CYCLE_START \<mapsto> RString (show_int now)))(QUEUE_KEY := None)"
  define pushes where "pushes = map (\<lambda>loc. LPUSH QUEUE_KEY (stringify loc)) ALL_LOCATIONS"
  from INCR_cases [of ks] c n
  have i: "INCR CYCLE_KEY ks = (RInteger (n + 1), ks1)" by (auto simp: ks1_def)
  have q: "\<forall>s. ks3 QUEUE_KEY \<noteq> Some (RString s)" by (simp add: ks3_def)
  have p: "snd (pipeline_exec pushes ks3) =
     (if ALL_LOCATIONS = [] then ks3
      else ks3(QUEUE_KEY \<mapsto> RList (rev (map stringify ALL_LOCATIONS))))"
    unfolding pushes_def pipeline_exec_pushes [where ks = ks3 and key = QUEUE_KEY, OF q] by (simp add: ks3_def)
  obtain rs ks4 where r: "pipeline_exec pushes ks3 = (rs, ks4)" by (cases "pipeline_exec pushes ks3")
  have b: "pipeline_exec (SET CYCLE_START (show_int now) # DEL QUEUE_KEY # pushes) ks1 =
      (ROk # RInteger (if ks1 QUEUE_KEY = None then 0 else 1) # rs, ks4)"
    using r keys_distinct by (simp add: ks3_def)
  have k4: "ks4 = (if ALL_LOCATIONS = [] then ks3
      else ks3(QUEUE_KEY \<mapsto> RList (rev (map stringify ALL_LOCATIONS))))"
    using p r by simp
  have e: "enqueueLocations stringify ALL_LOCATIONS now ks =
      Inr \<lparr>cycleId = n + 1, batch = SET CYCLE_START (show_int now) # DEL QUEUE_KEY # pushes,
           replies = ROk # RInteger (if ks1 QUEUE_KEY = None then 0 else 1) # rs, keys_after = ks4\<rparr>"
  proof -
    have "enqueueLocations stringify ALL_LOCATIONS now ks =
        (case pipeline_exec (SET CYCLE_START (show_int now) # DEL QUEUE_KEY # pushes) ks1 of
           (rs, ks2) \<Rightarrow>
             Inr \<lparr>cycleId = n + 1, batch = SET CYCLE_START (show_int now) # DEL QUEUE_KEY # pushes,
                  replies = rs, keys_after = ks2\<rparr>)"
      by (simp only: enqueueLocations_def i prod.case reply.case Let_def pushes_def)
    then show ?thesis by (simp only: b prod.case)
  qed
  define res where "res = \<lparr>cycleId = n + 1,
      batch = SET CYCLE_START (show_int now) # DEL QUEUE_KEY # pushes,
      replies = ROk # RInteger (if ks1 QUEUE_KEY = None then 0 else 1) # rs, keys_after = ks4\<rparr>"
  have c1: "cycleId res = n + 1" by (simp add: res_def)
  have c2: "batch res = SET CYCLE_START (show_int now) # DEL QUEUE_KEY
          # map (\<lambda>loc. LPUSH QUEUE_KEY (stringify loc)) ALL_LOCATIONS"
    by (simp add: res_def pushes_def)
  have c3: "(replies res, keys_after res) = pipeline_exec (batch res) (snd (INCR CYCLE_KEY ks))"
    by (simp only: res_def enqueued.select_convs i snd_conv b)
  have c4: "keys_after res =
         (if ALL_LOCATIONS = []
          then (ks(CYCLE_KEY \<mapsto> RString (show_int (n + 1)), CYCLE_START \<mapsto> RString (show_int now)))
                 (QUEUE_KEY := None)
          else (ks(CYCLE_KEY \<mapsto> RString (show_int (n + 1)), CYCLE_START \<mapsto> RString (show_int now)))
                 (QUEUE_KEY \<mapsto> RList (rev (map stringify ALL_LOCATIONS))))"
    by (simp add: res_def k4 ks3_def ks1_def)
  from e [folded res_def] c1 c2 c3 c4 show ?thesis by blast
qed

lemma before_pushes:
  "\<forall>c \<in> set (SET k v # DEL q # map (\<lambda>loc. LPUSH q (f loc)) locs). is_push c \<longrightarrow>
     before (DEL q) c (SET k v # DEL q # map (\<lambda>loc. LPUSH q (f loc)) locs)"
  by (auto simp: before_def is_push_def)

lemma filter_pushes:
  "length (filter is_push (SET k v # DEL q # map (\<lambda>loc. LPUSH q (f loc)) locs)) = length locs"
  by (induction locs) (simp_all add: is_push_def)

text \<open>
  Claim C2. When \<open>enqueueLocations\<close> completes, the queue holds exactly one item for
  each location (the locations in reverse order, whatever the key held before), the cycle
  counter has been incremented by one, and the commands sent as one pipelined batch are
  the write of the start time, the delete of the queue and one push per location, the
  delete before every push. It completes unless the counter key does not hold a 64-bit
  integer below the largest one.
\<close>

theorem enqueueLocations_queue:
  "(case enqueueLocations stringify ALL_LOCATIONS now ks of
      Inl e \<Rightarrow> cycle_counter ks = None \<or> cycle_counter ks = Some (2 ^ 63 - 1)
    | Inr res \<Rightarrow>
        LLEN QUEUE_KEY (keys_after res) = length ALL_LOCATIONS
        \<and> keys_after res QUEUE_KEY =
            (if ALL_LOCATIONS = [] then None else Some (RList (rev (map stringify ALL_LOCATIONS))))
        \<and> cycle_counter ks = Some (cycleId res - 1)
        \<and> cycle_counter (keys_after res) = Some (cycleId res)
        \<and> keys_after res CYCLE_START = Some (RString (show_int now))
        \<and> batch res = SET CYCLE_START (show_int now) # DEL QUEUE_KEY
             # map (\<lambda>loc. LPUSH QUEUE_KEY (stringify loc)) ALL_LOCATIONS
        \<and> length (filter is_push (batch res)) = length ALL_LOCATIONS
        \<and> (\<forall>c \<in> set (batch res). is_push c \<longrightarrow> before (DEL QUEUE_KEY) c (batch res))
        \<and> (replies res, keys_after res) = pipeline_exec (batch res) (snd (INCR CYCLE_KEY ks)))"
proof -
  from INCR_cases [of ks] consider
    (ok) n where "cycle_counter ks = Some n" "n \<noteq> 2 ^ 63 - 1"
  | (refused) e where "cycle_counter ks = None \<or> cycle_counter ks = Some (2 ^ 63 - 1)"
      "INCR CYCLE_KEY ks = (RError e, ks)"
    by blast
  then show ?thesis
  proof cases
    case refused
    then show ?thesis by (simp add: enqueueLocations_def)
  next
    case ok
    from enqueueLocations_Inr [OF ok, of stringify ALL_LOCATIONS now]
    obtain res where res: "enqueueLocations stringify ALL_LOCATIONS now ks = Inr res"
      "cycleId res = n + 1"
      "batch res = SET CYCLE_START (show_int now) # DEL QUEUE_KEY
          # map (\<lambda>loc. LPUSH QUEUE_KEY (stringify loc)) ALL_LOCATIONS"
      "(replies res, keys_after res) = pipeline_exec (batch res) (snd (INCR CYCLE_KEY ks))"
      "keys_after res =
         (if ALL_LOCATIONS = []
          then (ks(CYCLE_KEY \<mapsto> RString (show_int (n + 1)), CYCLE_START \<mapsto> RString (show_int now)))
                 (QUEUE_KEY := None)
          else (ks(CYCLE_KEY \<mapsto> RString (show_int (n + 1)), CYCLE_START \<mapsto> RString (show_int now)))
                 (QUEUE_KEY \<mapsto> RList (rev (map stringify ALL_LOCATIONS))))"
      by blast
    have "- (2 ^ 63) \<le> n \<and> n < 2 ^ 63"
    proof (cases "ks CYCLE_KEY")
      case None
      with ok(1) show ?thesis by (simp add: cycle_counter_def)
    next
      case (Some v)
      with ok(1) obtain s where "int_of_string s = Some n"
        by (cases v) (simp_all add: cycle_counter_def)
      then show ?thesis by (rule int_of_string_range)
    qed
    with ok(2) have rg: "- (2 ^ 63) \<le> n + 1" "n + 1 < 2 ^ 63" by simp_all
    have 1: "LLEN QUEUE_KEY (keys_after res) = length ALL_LOCATIONS"
      by (simp add: res(5) LLEN_def)
    have 2: "keys_after res QUEUE_KEY =
            (if ALL_LOCATIONS = [] then None else Some (RList (rev (map stringify ALL_LOCATIONS))))"
      by (simp add: res(5))
    have 3: "cycle_counter ks = Some (cycleId res - 1)" by (simp add: res(2) ok)
    have 4: "cycle_counter (keys_after res) = Some (cycleId res)"
      using keys_distinct by (simp add: res(5) res(2) cycle_counter_def int_of_string_show_int [OF rg])
    have 5: "keys_after res CYCLE_START = Some (RString (show_int now))"
      using keys_distinct by (simp add: res(5))
    have 7: "length (filter is_push (batch res)) = length ALL_LOCATIONS"
      unfolding res(3) by (rule filter_pushes)
    have 8: "\<forall>c \<in> set (batch res). is_push c \<longrightarrow> before (DEL QUEUE_KEY) c (batch res)"
      unfolding res(3) by (rule before_pushes)
    show ?thesis
      unfolding res(1) sum.case using 1 2 3 4 5 res(3) 7 8 res(4) by blast
  qed
qed

theorem enqueueLocations_queue_witness:
  "(case enqueueLocations id [''a'', ''b'', ''c''] 1700000000000 stale_keys of
      Inl e \<Rightarrow> False
    | Inr res \<Rightarrow>
        cycleId res = 42
        \<and> replies res = [ROk, RInteger 1, RInteger 1, RInteger 2, RInteger 3]
        \<and> LLEN QUEUE_KEY (keys_after res) = 3
        \<and> keys_after res QUEUE_KEY = Some (RList [''c'', ''b'', ''a''])
        \<and> cycle_counter stale_keys = Some 41
        \<and> cycle_counter (keys_after res) = Some 42
        \<and> batch res = [SET CYCLE_START ''1700000000000'', DEL QUEUE_KEY, LPUSH QUEUE_KEY ''a'',
                        LPUSH QUEUE_KEY ''b'', LPUSH QUEUE_KEY ''c''])"
proof -
  have d: "digit_char 0 = CHR ''0''" "digit_char (Suc 0) = CHR ''1''" "digit_char 7 = CHR ''7''"
    by code_simp+
  have s: "show_int 1700000000000 = ''1700000000000''"
    by (simp add: show_int_def show_nat.simps d)
  have s': "show_int 42 = ''42''" "int_of_string ''41'' = Some 41"
    by code_simp+
  have r: "(case enqueueLocations id [''a'', ''b'', ''c''] 1700000000000 stale_keys of
      Inl e \<Rightarrow> False
    | Inr res \<Rightarrow> cycleId res = 42
        \<and> replies res = [ROk, RInteger 1, RInteger 1, RInteger 2, RInteger 3])"
    using keys_distinct
    by (simp add: enqueueLocations_def INCR_def stale_keys_def s s')
  then obtain res where
    e: "enqueueLocations id [''a'', ''b'', ''c''] 1700000000000 stale_keys = Inr res"
    and c: "cycleId res = 42" "replies res = [ROk, RInteger 1, RInteger 1, RInteger 2, RInteger 3]"
    by (cases "enqueueLocations id [''a'', ''b'', ''c''] 1700000000000 stale_keys") auto
  note t = enqueueLocations_queue [where stringify = id and ALL_LOCATIONS = "[''a'', ''b'', ''c'']"
      and now = 1700000000000 and ks = stale_keys, unfolded e sum.case]
  have 1: "LLEN QUEUE_KEY (keys_after res) = 3"
    using t [THEN conjunct1] by simp
  have 2: "keys_after res QUEUE_KEY = Some (RList [''c'', ''b'', ''a''])"
    using t [THEN conjunct2, THEN conjunct1] by simp
  have 3: "cycle_counter stale_keys = Some 41"
    using t [THEN conjunct2, THEN conjunct2, THEN conjunct1] c(1) by simp
  have 4: "cycle_counter (keys_after res) = Some 42"
    using t [THEN conjunct2, THEN conjunct2, THEN conjunct2, THEN conjunct1] c(1) by simp
  have 6: "batch res = [SET CYCLE_START ''1700000000000'', DEL QUEUE_KEY, LPUSH QUEUE_KEY ''a'',
                        LPUSH QUEUE_KEY ''b'', LPUSH QUEUE_KEY ''c'']"
    using t [THEN conjunct2, THEN conjunct2, THEN conjunct2, THEN conjunct2, THEN conjunct2,
        THEN conjunct1]
    by (simp add: s)
  show ?thesis
    unfolding e sum.case using c 1 2 3 4 6 by blast
qed

end
